theory Spec2Isabelle
  imports Main "HOL-Library.Sublist"
begin

section \<open>Structural code chunking: \<^verbatim>\<open>_CodeChunkerMS/code_chunker.py\<close>\<close>

text \<open>
  The chunker parses a source file with tree-sitter and walks the concrete syntax tree,
  keeping functions and classes that fit a size budget as chunks. The tree-sitter parser,
  \<^verbatim>\<open>pathlib\<close> and the file system are libraries outside the repository: the tree is
  a value of the datatype \<open>node\<close> below, and the library calls are fields of an
  environment record, each returning either an exception or a value.
\<close>

subsection \<open>Data\<close>

text \<open>
  A Python \<^verbatim>\<open>str\<close> holding source text, a file path or a message is a list of Unicode
  code points. Type tags and language names are only compared with literals of the
  program and are kept as \<open>string\<close>; \<open>py_str\<close> gives the code points of a literal.
\<close>

type_synonym pystr = "nat list"

definition py_str :: "string \<Rightarrow> pystr" where
  "py_str s = map of_char s"

text \<open>
  A tree-sitter node, with the attributes the walker reads. \<^verbatim>\<open>node.prev_sibling\<close> is
  the child before the node in its parent's \<^verbatim>\<open>children\<close> (\<^verbatim>\<open>None\<close> for a first child and
  for the root); the walker below carries it as an argument of type \<open>node option\<close>.
\<close>

datatype node = Node
  (node_type: string)
  (start_byte: nat)
  (end_byte: nat)
  (start_point: "nat \<times> nat")
  (end_point: "nat \<times> nat")
  (children: "node list")

text \<open>
  The dictionary appended to \<^verbatim>\<open>chunks\<close>, with its keys \<^verbatim>\<open>type\<close>, \<^verbatim>\<open>text\<close>,
  \<^verbatim>\<open>start_line\<close> and \<^verbatim>\<open>end_line\<close>.
\<close>

record chunk =
  chunk_type :: string
  chunk_text :: pystr
  start_line :: nat
  end_line :: nat

text \<open>
  An exception of class \<^verbatim>\<open>Exception\<close> (any subclass), with the text \<^verbatim>\<open>str(e)\<close> gives for
  it. Interrupts that arrive from outside the program are not modelled.
\<close>

datatype exn = Exception pystr

fun str_exn :: "exn \<Rightarrow> pystr" where
  "str_exn (Exception msg) = msg"

subsection \<open>Configuration (lines 9 to 25)\<close>

definition LANG_MAP :: "pystr \<rightharpoonup> string" where
  "LANG_MAP = map_of
     [(py_str ''.py'', ''python''),
      (py_str ''.js'', ''javascript''), (py_str ''.jsx'', ''javascript''),
      (py_str ''.ts'', ''typescript''), (py_str ''.tsx'', ''typescript''),
      (py_str ''.go'', ''go''),
      (py_str ''.rs'', ''rust''),
      (py_str ''.java'', ''java''),
      (py_str ''.cpp'', ''cpp''), (py_str ''.cc'', ''cpp''), (py_str ''.c'', ''c''),
      (py_str ''.h'', ''c'')]"

definition CHUNK_NODES :: "string set" where
  "CHUNK_NODES =
     {''class_definition'', ''function_definition'', ''method_definition'',
      ''class_declaration'', ''function_declaration'', ''method_definition'',
      ''func_literal'', ''function_declaration'',
      ''function_item'', ''impl_item''}"

text \<open>
  The classification test of line 77, \<^verbatim>\<open>node.type in CHUNK_NODES\<close>, as made by the walk
  that \<^verbatim>\<open>_parse(code, lang_id, max_chars)\<close> starts: \<open>lang_id\<close> is in scope there and
  the test does not read it.
\<close>

definition is_chunk_unit :: "string \<Rightarrow> string \<Rightarrow> bool" where
  "is_chunk_unit t lang_id = (t \<in> CHUNK_NODES)"

subsection \<open>Built-in string operations\<close>

text \<open>\<^verbatim>\<open>xs[a:b]\<close> for indices \<open>a\<close>, \<open>b\<close> that are not negative.\<close>

definition slice :: "'a list \<Rightarrow> nat \<Rightarrow> nat \<Rightarrow> 'a list" where
  "slice xs a b = drop a (take b xs)"

text \<open>\<^verbatim>\<open>str.isspace\<close> on one code point: the characters \<^verbatim>\<open>str.strip()\<close> removes.\<close>

definition py_isspace :: "nat \<Rightarrow> bool" where
  "py_isspace c =
     ((9 \<le> c \<and> c \<le> 13) \<or> (28 \<le> c \<and> c \<le> 32) \<or> c = 133 \<or> c = 160 \<or> c = 5760 \<or>
      (8192 \<le> c \<and> c \<le> 8202) \<or> c = 8232 \<or> c = 8233 \<or> c = 8239 \<or> c = 8287 \<or>
      c = 12288)"

definition strip :: "pystr \<Rightarrow> pystr" where
  "strip s = rev (dropWhile py_isspace (rev (dropWhile py_isspace s)))"

text \<open>
  The line boundaries of \<^verbatim>\<open>str.splitlines\<close>: \<^verbatim>\<open>\n\<close>, \<^verbatim>\<open>\v\<close>, \<^verbatim>\<open>\f\<close>, \<^verbatim>\<open>\r\<close>, the separators
  \<^verbatim>\<open>\x1c\<close> to \<^verbatim>\<open>\x1e\<close>, \<^verbatim>\<open>\x85\<close>, and the line and paragraph separators U+2028, U+2029.
  \<^verbatim>\<open>\r\n\<close> is one boundary, and a boundary at the very end opens no further line.
\<close>

definition is_linebreak :: "nat \<Rightarrow> bool" where
  "is_linebreak c =
     ((10 \<le> c \<and> c \<le> 13) \<or> (28 \<le> c \<and> c \<le> 30) \<or> c = 133 \<or> c = 8232 \<or> c = 8233)"

fun splitlines_from :: "pystr \<Rightarrow> pystr \<Rightarrow> pystr list" where
  "splitlines_from cur [] = (if cur = [] then [] else [cur])"
| "splitlines_from cur (c # cs) =
     (if is_linebreak c then
        (case cs of
           [] \<Rightarrow> [cur]
         | d # ds \<Rightarrow>
             if c = 13 \<and> d = 10 then cur # splitlines_from [] ds
             else cur # splitlines_from [] (d # ds))
      else splitlines_from (cur @ [c]) cs)"

definition splitlines :: "pystr \<Rightarrow> pystr list" where
  "splitlines s = splitlines_from [] s"

subsection \<open>The recursive walker (lines 75 to 107)\<close>

text \<open>
  Lines 79 to 86: the start of the text captured for a chunk-worthy node. Only
  \<^verbatim>\<open>node.prev_sibling\<close> is read, and only for the tag \<^verbatim>\<open>"comment"\<close>.
\<close>

definition extended_start :: "node option \<Rightarrow> node \<Rightarrow> nat" where
  "extended_start prev n =
     (case prev of
        None \<Rightarrow> start_byte n
      | Some p \<Rightarrow> if node_type p = ''comment'' then start_byte p else start_byte n)"

text \<open>
  \<open>walk code max_chars prev n chunks\<close> is \<^verbatim>\<open>walk(node)\<close> run on the list \<open>chunks\<close>
  accumulated so far, \<open>prev\<close> being \<^verbatim>\<open>node.prev_sibling\<close>; it returns the list after the
  call. \<open>walk_children\<close> is the loop \<^verbatim>\<open>for child in node.children: walk(child)\<close>, which
  hands every child the child before it as its previous sibling. \<open>walk\<close> is the walk
  on a stack that never runs out; \<^verbatim>\<open>_parse\<close> below raises in its place when the
  interpreter's recursion limit is hit during the walk.
\<close>

fun walk :: "pystr \<Rightarrow> int \<Rightarrow> node option \<Rightarrow> node \<Rightarrow> chunk list \<Rightarrow> chunk list"
  and walk_children :: "pystr \<Rightarrow> int \<Rightarrow> node option \<Rightarrow> node list \<Rightarrow> chunk list \<Rightarrow> chunk list"
where
  "walk code max_chars prev (Node ty sb eb sp ep cs) chunks =
     (if ty \<in> CHUNK_NODES then
        (let chunk_text = slice code (extended_start prev (Node ty sb eb sp ep cs)) eb
         in if int (length chunk_text) > max_chars
            then walk_children code max_chars None cs chunks
            else chunks @ [\<lparr>chunk_type = ty, chunk_text = chunk_text,
                            start_line = fst sp, end_line = fst ep\<rparr>])
      else walk_children code max_chars None cs chunks)"
| "walk_children code max_chars prev [] chunks = chunks"
| "walk_children code max_chars prev (c # cs) chunks =
     walk_children code max_chars (Some c) cs (walk code max_chars prev c chunks)"

subsection \<open>Parsing and the fallback (lines 63 to 120)\<close>

text \<open>
  The environment of a call on a \<^verbatim>\<open>CodeChunkerMS\<close> object, each field a part of the
  libraries or of the interpreter that the program calls:
  \<^item> \<open>available\<close>: whether the tree-sitter import of \<^verbatim>\<open>__init__\<close> succeeded;
  \<^item> \<open>suffix_lower\<close>: \<^verbatim>\<open>Path(file_path).suffix.lower()\<close>;
  \<^item> \<open>read_text\<close>: \<^verbatim>\<open>Path.read_text\<close>, with the exception it raises or the text it returns;
  \<^item> \<open>ts_parse\<close>: the tree-sitter calls of lines 64 to 72 taken together, from the
    language name and the code to the root node, or the exception one of them raises;
  \<^item> \<open>recursion_error\<close>: the \<^verbatim>\<open>RecursionError\<close> the interpreter raises during
    \<^verbatim>\<open>walk(tree.root_node)\<close> when the nested calls of \<^verbatim>\<open>walk\<close> go beyond its recursion
    limit, or \<open>None\<close> when the walk fits. Whether it fits depends on the tree, on the nodes
    the walk descends into (so on the code and the budget), on the frames already in use
    when \<^verbatim>\<open>chunk_file\<close> is called, and on the interpreter;
  \<^item> \<open>py_print\<close>: \<^verbatim>\<open>print\<close> on the standard output, with the exception it raises
    (a closed stream, a character the stream's encoding refuses) or \<open>None\<close> when the
    message was written.
\<close>

record env =
  available :: bool
  suffix_lower :: "pystr \<Rightarrow> pystr"
  read_text :: "pystr \<Rightarrow> exn + pystr"
  ts_parse :: "string \<Rightarrow> pystr \<Rightarrow> exn + node"
  recursion_error :: "pystr \<Rightarrow> int \<Rightarrow> node \<Rightarrow> exn option"
  py_print :: "pystr \<Rightarrow> exn option"

text \<open>Lines 112 to 118: the whole file as one chunk when the walk found nothing.\<close>

definition fallback :: "pystr \<Rightarrow> chunk list \<Rightarrow> chunk list" where
  "fallback code chunks =
     (if chunks = [] \<and> strip code \<noteq> [] then
        chunks @ [\<lparr>chunk_type = ''file'', chunk_text = code,
                   start_line = 0, end_line = length (splitlines code)\<rparr>]
      else chunks)"

text \<open>
  \<^verbatim>\<open>_parse\<close>: an exception of the parser, or of the interpreter during the walk, leaves the
  function, and the chunks appended so far are lost with it.
\<close>

definition CodeChunkerMS_parse :: "env \<Rightarrow> pystr \<Rightarrow> string \<Rightarrow> int \<Rightarrow> exn + chunk list" where
  "CodeChunkerMS_parse e code lang_id max_chars =
     (case ts_parse e lang_id code of
        Inl x \<Rightarrow> Inl x
      | Inr root \<Rightarrow>
          (case recursion_error e code max_chars root of
             Some x \<Rightarrow> Inl x
           | None \<Rightarrow> Inr (fallback code (walk code max_chars None root []))))"

subsection \<open>The entry point (lines 44 to 61)\<close>

text \<open>The message of line 60, \<^verbatim>\<open>f"Error parsing {file_path}: {e}"\<close>.\<close>

definition error_message :: "pystr \<Rightarrow> exn \<Rightarrow> pystr" where
  "error_message file_path x = py_str ''Error parsing '' @ file_path @ py_str '': '' @ str_exn x"

text \<open>
  Lines 59 to 61, the handler of \<^verbatim>\<open>except Exception as e\<close>: it prints the message and
  returns the empty list. The \<^verbatim>\<open>print\<close> stands in no \<^verbatim>\<open>try\<close> of its own, so an exception it
  raises leaves \<^verbatim>\<open>chunk_file\<close>.
\<close>

definition handler :: "env \<Rightarrow> pystr \<Rightarrow> exn \<Rightarrow> exn + chunk list" where
  "handler e file_path x =
     (case py_print e (error_message file_path x) of
        Some y \<Rightarrow> Inl y
      | None \<Rightarrow> Inr [])"

text \<open>
  \<open>Inl\<close> is an exception leaving \<^verbatim>\<open>chunk_file\<close>. The \<^verbatim>\<open>try\<close> block holds the reading of the
  file and the whole of \<^verbatim>\<open>_parse\<close>.
\<close>

definition chunk_file :: "env \<Rightarrow> pystr \<Rightarrow> int \<Rightarrow> exn + chunk list" where
  "chunk_file e file_path max_chars =
     (if \<not> available e then Inr []
      else
        (case LANG_MAP (suffix_lower e file_path) of
           None \<Rightarrow> Inr []
         | Some lang_id \<Rightarrow>
             (case read_text e file_path of
                Inl x \<Rightarrow> handler e file_path x
              | Inr code \<Rightarrow>
                  (case CodeChunkerMS_parse e code lang_id max_chars of
                     Inl x \<Rightarrow> handler e file_path x
                   | Inr chunks \<Rightarrow> Inr chunks))))"

subsection \<open>The walk as a sequence of visits\<close>

text \<open>
  The same recursion with every call of \<^verbatim>\<open>walk(node)\<close> recorded: the position of the node
  (the child indices leading to it from the node the walk started at, itself at \<open>path\<close>)
  and the chunk appended by that call, if any. \<open>walk_visits_sound\<close> below relates it to
  \<open>walk\<close>.
\<close>

fun visits :: "pystr \<Rightarrow> int \<Rightarrow> node option \<Rightarrow> nat list \<Rightarrow> node \<Rightarrow> (nat list \<times> chunk option) list"
  and visits_children ::
    "pystr \<Rightarrow> int \<Rightarrow> node option \<Rightarrow> nat list \<Rightarrow> nat \<Rightarrow> node list \<Rightarrow> (nat list \<times> chunk option) list"
where
  "visits code max_chars prev path (Node ty sb eb sp ep cs) =
     (if ty \<in> CHUNK_NODES then
        (let chunk_text = slice code (extended_start prev (Node ty sb eb sp ep cs)) eb
         in if int (length chunk_text) > max_chars
            then (path, None) # visits_children code max_chars None path 0 cs
            else [(path, Some \<lparr>chunk_type = ty, chunk_text = chunk_text,
                                  start_line = fst sp, end_line = fst ep\<rparr>)])
      else (path, None) # visits_children code max_chars None path 0 cs)"
| "visits_children code max_chars prev path i [] = []"
| "visits_children code max_chars prev path i (c # cs) =
     visits code max_chars prev (path @ [i]) c
     @ visits_children code max_chars (Some c) path (Suc i) cs"

text \<open>The node at a position of the tree.\<close>

fun node_at :: "node \<Rightarrow> nat list \<Rightarrow> node option" where
  "node_at n [] = Some n"
| "node_at n (i # path) =
     (if i < length (children n) then node_at (children n ! i) path else None)"

subsection \<open>Document order\<close>

text \<open>The nodes of a tree in pre-order, children from left to right.\<close>

fun preorder :: "node \<Rightarrow> node list" where
  "preorder (Node ty sb eb sp ep cs) = Node ty sb eb sp ep cs # concat (map preorder cs)"

definition node_span :: "node \<Rightarrow> string \<times> nat \<times> nat" where
  "node_span n = (node_type n, fst (start_point n), fst (end_point n))"

definition chunk_span :: "chunk \<Rightarrow> string \<times> nat \<times> nat" where
  "chunk_span c = (chunk_type c, start_line c, end_line c)"

subsection \<open>Notions as the specification words them\<close>

text \<open>
  The specification gives one allow-list per language, with these two as its examples.
  They are written down here from its words, to be compared with \<open>CHUNK_NODES\<close>.
\<close>

definition spec_python_units :: "string set" where
  "spec_python_units = {''class_definition'', ''function_definition''}"

definition spec_rust_units :: "string set" where
  "spec_rust_units = {''function_item'', ''impl_item''}"

text \<open>
  The specification's end line of the fallback chunk, the number of newline-delimited
  lines of the source: one line for every newline character, and one more for a last
  line that no newline ends. It is written down here from those words, to be compared
  with \<open>length (splitlines code)\<close>.
\<close>

definition spec_newline_lines :: "pystr \<Rightarrow> nat" where
  "spec_newline_lines code =
     count_list code 10 + (if code = [] \<or> last code = 10 then 0 else 1)"

text \<open>The chunk that \<open>walk\<close> appends for a kept node, for use in the statements below.\<close>

definition chunk_of :: "pystr \<Rightarrow> node option \<Rightarrow> node \<Rightarrow> chunk" where
  "chunk_of code prev n =
     \<lparr>chunk_type = node_type n,
      chunk_text = slice code (extended_start prev n) (end_byte n),
      start_line = fst (start_point n), end_line = fst (end_point n)\<rparr>"

section \<open>Properties of the walker\<close>

lemma walk_children_acc_aux:
  assumes "\<And>c prev chunks. c \<in> set cs \<Longrightarrow>
             walk code mc prev c chunks = chunks @ walk code mc prev c []"
  shows "walk_children code mc prev cs chunks = chunks @ walk_children code mc prev cs []"
  using assms
proof (induction cs arbitrary: prev chunks)
  case Nil
  then show ?case by simp
next
  case (Cons c cs)
  have step: "\<And>acc. walk_children code mc (Some c) cs acc
                = acc @ walk_children code mc (Some c) cs []"
    by (rule Cons.IH) (rule Cons.prems, simp)
  have "walk_children code mc prev (c # cs) chunks
        = walk code mc prev c chunks @ walk_children code mc (Some c) cs []"
    using step [of "walk code mc prev c chunks"] by simp
  also have "\<dots> = chunks @ walk code mc prev c [] @ walk_children code mc (Some c) cs []"
    using Cons.prems [of c prev chunks] by simp
  also have "walk code mc prev c [] @ walk_children code mc (Some c) cs []
             = walk_children code mc prev (c # cs) []"
    using step [of "walk code mc prev c []"] by simp
  finally show ?case .
qed

lemma walk_acc: "walk code mc prev n chunks = chunks @ walk code mc prev n []"
proof (induction n arbitrary: prev chunks)
  case (Node ty sb eb sp ep cs)
  have kids: "\<And>p acc. walk_children code mc p cs acc = acc @ walk_children code mc p cs []"
    by (rule walk_children_acc_aux) (rule Node.IH)
  show ?case
    using kids [of None chunks] by (simp add: Let_def)
qed

lemma walk_children_acc:
  "walk_children code mc prev cs chunks = chunks @ walk_children code mc prev cs []"
  by (rule walk_children_acc_aux) (rule walk_acc)


lemma walk_children_Cons:
  "walk_children code mc prev (c # cs) chunks
   = chunks @ walk code mc prev c [] @ walk_children code mc (Some c) cs []"
proof -
  have "walk_children code mc prev (c # cs) chunks
        = walk code mc prev c chunks @ walk_children code mc (Some c) cs []"
    using walk_children_acc [of code mc "Some c" cs "walk code mc prev c chunks"] by simp
  then show ?thesis
    using walk_acc [of code mc prev c chunks] by simp
qed

lemma walk_children_Cons_Nil:
  "walk_children code mc prev (c # cs) []
   = walk code mc prev c [] @ walk_children code mc (Some c) cs []"
  using walk_children_Cons [of code mc prev c cs "[]"] by simp

lemma walk_unit:
  assumes "node_type n \<in> CHUNK_NODES"
  shows "walk code mc prev n chunks =
     (if int (length (slice code (extended_start prev n) (end_byte n))) > mc
      then walk_children code mc None (children n) chunks
      else chunks @ [\<lparr>chunk_type = node_type n,
                      chunk_text = slice code (extended_start prev n) (end_byte n),
                      start_line = fst (start_point n), end_line = fst (end_point n)\<rparr>])"
  using assms by (cases n) (simp add: Let_def)

lemma walk_non_unit:
  assumes "node_type n \<notin> CHUNK_NODES"
  shows "walk code mc prev n chunks = walk_children code mc None (children n) chunks"
  using assms by (cases n) simp

lemma visits_unit:
  assumes "node_type n \<in> CHUNK_NODES"
  shows "visits code mc prev path n =
     (if int (length (slice code (extended_start prev n) (end_byte n))) > mc
      then (path, None) # visits_children code mc None path 0 (children n)
      else [(path, Some \<lparr>chunk_type = node_type n,
                      chunk_text = slice code (extended_start prev n) (end_byte n),
                      start_line = fst (start_point n), end_line = fst (end_point n)\<rparr>)])"
  using assms by (cases n) (simp add: Let_def)

text \<open>
  C5: the size test is inclusive. A chunk-worthy node whose captured text (from the
  extended start to the node's end) has at most \<open>max_chars\<close> characters, so also exactly
  \<open>max_chars\<close>, is appended as one chunk carrying the node's type tag, that text, and the
  lines of the node's start and end points; the call visits no child.
\<close>

theorem keep_within_budget:
  assumes "node_type n \<in> CHUNK_NODES"
    and "int (length (slice code (extended_start prev n) (end_byte n))) \<le> max_chars"
  shows "walk code max_chars prev n chunks
         = chunks @ [\<lparr>chunk_type = node_type n,
                       chunk_text = slice code (extended_start prev n) (end_byte n),
                       start_line = fst (start_point n), end_line = fst (end_point n)\<rparr>]
       \<and> visits code max_chars prev path n
         = [(path, Some \<lparr>chunk_type = node_type n,
                       chunk_text = slice code (extended_start prev n) (end_byte n),
                       start_line = fst (start_point n), end_line = fst (end_point n)\<rparr>)]"
  using assms by (simp add: walk_unit visits_unit)

theorem keep_within_budget_witness:
  "node_type (Node ''class_definition'' 3 13 (1, 0) (4, 2)
               [Node ''function_definition'' 5 9 (2, 0) (3, 0) []]) \<in> CHUNK_NODES
   \<and> int (length (slice [0, 1, 2, 3, 4, 5, 6, 7, 8, 9, 10, 11, 12, 13, 14, 15 :: nat]
             (extended_start None (Node ''class_definition'' 3 13 (1, 0) (4, 2)
               [Node ''function_definition'' 5 9 (2, 0) (3, 0) []])) 13)) = 10
   \<and> walk [0, 1, 2, 3, 4, 5, 6, 7, 8, 9, 10, 11, 12, 13, 14, 15] 10 None
        (Node ''class_definition'' 3 13 (1, 0) (4, 2)
           [Node ''function_definition'' 5 9 (2, 0) (3, 0) []]) []
      = [\<lparr>chunk_type = ''class_definition'',
           chunk_text = [3, 4, 5, 6, 7, 8, 9, 10, 11, 12],
           start_line = 1, end_line = 4\<rparr>]"
  using keep_within_budget
    [of "Node ''class_definition'' 3 13 (1, 0) (4, 2)
           [Node ''function_definition'' 5 9 (2, 0) (3, 0) []]"
        "[0, 1, 2, 3, 4, 5, 6, 7, 8, 9, 10, 11, 12, 13, 14, 15]" None 10 "[]" "[]"]
  by (simp add: CHUNK_NODES_def slice_def extended_start_def)


lemma walk_children_split:
  "walk_children code mc prev (pre @ p # n # post) chunks
   = walk_children code mc (Some n) post
       (walk code mc (Some p) n (walk_children code mc prev (pre @ [p]) chunks))"
  by (induction pre arbitrary: prev chunks) simp_all

text \<open>
  C6: when a chunk-worthy node is kept and the sibling just before it has the tag
  \<^verbatim>\<open>comment\<close>, the chunk's text runs from that sibling's start byte to the node's end byte;
  with another sibling before it, or none, it runs from the node's own start byte. In a
  list of children only the sibling just before the node is read: whatever stands before
  that sibling (further comments included) and whatever follows the node, the text of
  the node's chunk is the same.
\<close>

theorem comment_sibling_extends_start:
  assumes "node_type n \<in> CHUNK_NODES"
  shows "(node_type p = ''comment'' \<and> int (length (slice code (start_byte p) (end_byte n))) \<le> mc \<longrightarrow>
            walk code mc (Some p) n chunks
            = chunks @ [\<lparr>chunk_type = node_type n,
                          chunk_text = slice code (start_byte p) (end_byte n),
                          start_line = fst (start_point n), end_line = fst (end_point n)\<rparr>])
       \<and> (node_type p \<noteq> ''comment'' \<and> int (length (slice code (start_byte n) (end_byte n))) \<le> mc \<longrightarrow>
            walk code mc (Some p) n chunks
            = chunks @ [\<lparr>chunk_type = node_type n,
                          chunk_text = slice code (start_byte n) (end_byte n),
                          start_line = fst (start_point n), end_line = fst (end_point n)\<rparr>])
       \<and> (int (length (slice code (start_byte n) (end_byte n))) \<le> mc \<longrightarrow>
            walk code mc None n chunks
            = chunks @ [\<lparr>chunk_type = node_type n,
                          chunk_text = slice code (start_byte n) (end_byte n),
                          start_line = fst (start_point n), end_line = fst (end_point n)\<rparr>])
       \<and> (node_type p = ''comment'' \<and> int (length (slice code (start_byte p) (end_byte n))) \<le> mc \<longrightarrow>
            walk_children code mc prev (pre @ p # n # post) chunks
            = walk_children code mc (Some n) post
                (walk_children code mc prev (pre @ [p]) chunks
                 @ [\<lparr>chunk_type = node_type n,
                      chunk_text = slice code (start_byte p) (end_byte n),
                      start_line = fst (start_point n), end_line = fst (end_point n)\<rparr>]))"
proof -
  have a: "extended_start (Some p) n = start_byte p" if "node_type p = ''comment''"
    using that by (simp add: extended_start_def)
  have b: "extended_start (Some p) n = start_byte n" if "node_type p \<noteq> ''comment''"
    using that by (simp add: extended_start_def)
  have c: "extended_start None n = start_byte n"
    by (simp add: extended_start_def)
  show ?thesis
    using assms a b c by (simp add: walk_unit walk_children_split)
qed

theorem comment_sibling_extends_start_witness:
  "node_type (Node ''function_definition'' 8 14 (2, 0) (3, 4) []) \<in> CHUNK_NODES
   \<and> node_type (Node ''comment'' 4 7 (1, 0) (1, 3) []) = ''comment''
   \<and> int (length (slice [0, 1, 2, 3, 4, 5, 6, 7, 8, 9, 10, 11, 12, 13, 14, 15 :: nat] 4 14)) \<le> 12
   \<and> walk_children [0, 1, 2, 3, 4, 5, 6, 7, 8, 9, 10, 11, 12, 13, 14, 15] 12 None
        [Node ''comment'' 0 3 (0, 0) (0, 3) [],
         Node ''comment'' 4 7 (1, 0) (1, 3) [],
         Node ''function_definition'' 8 14 (2, 0) (3, 4) [],
         Node ''comment'' 14 16 (3, 4) (3, 6) []] []
      = [\<lparr>chunk_type = ''function_definition'',
           chunk_text = [4, 5, 6, 7, 8, 9, 10, 11, 12, 13],
           start_line = 2, end_line = 3\<rparr>]"
  using comment_sibling_extends_start
    [of "Node ''function_definition'' 8 14 (2, 0) (3, 4) []"
        "Node ''comment'' 4 7 (1, 0) (1, 3) []"
        "[0, 1, 2, 3, 4, 5, 6, 7, 8, 9, 10, 11, 12, 13, 14, 15]" 12 "[]" None
        "[Node ''comment'' 0 3 (0, 0) (0, 3) []]"
        "[Node ''comment'' 14 16 (3, 4) (3, 6) []]"]
  by (simp add: CHUNK_NODES_def slice_def extended_start_def)

text \<open>
  C10: only the tag \<^verbatim>\<open>comment\<close> extends the start. A kept chunk-worthy node whose previous
  sibling carries any other tag, \<^verbatim>\<open>line_comment\<close> or \<^verbatim>\<open>block_comment\<close> for instance, has a
  chunk text that starts at the node's own start byte.
\<close>

theorem other_tags_do_not_extend:
  assumes "node_type n \<in> CHUNK_NODES"
    and "node_type p \<noteq> ''comment''"
    and "int (length (slice code (start_byte n) (end_byte n))) \<le> mc"
  shows "walk code mc (Some p) n chunks
         = chunks @ [\<lparr>chunk_type = node_type n,
                       chunk_text = slice code (start_byte n) (end_byte n),
                       start_line = fst (start_point n), end_line = fst (end_point n)\<rparr>]"
proof -
  have "extended_start (Some p) n = start_byte n"
    using assms(2) by (simp add: extended_start_def)
  then show ?thesis
    using assms(1,3) by (simp add: walk_unit)
qed

theorem other_tags_do_not_extend_witness:
  "node_type (Node ''function_item'' 8 14 (2, 0) (3, 4) []) \<in> CHUNK_NODES
   \<and> node_type (Node ''line_comment'' 4 7 (1, 0) (1, 3) []) \<noteq> ''comment''
   \<and> int (length (slice [0, 1, 2, 3, 4, 5, 6, 7, 8, 9, 10, 11, 12, 13, 14, 15 :: nat] 8 14)) \<le> 12
   \<and> walk [0, 1, 2, 3, 4, 5, 6, 7, 8, 9, 10, 11, 12, 13, 14, 15] 12
        (Some (Node ''line_comment'' 4 7 (1, 0) (1, 3) []))
        (Node ''function_item'' 8 14 (2, 0) (3, 4) []) []
      = [\<lparr>chunk_type = ''function_item'',
           chunk_text = [8, 9, 10, 11, 12, 13],
           start_line = 2, end_line = 3\<rparr>]"
  using other_tags_do_not_extend
    [of "Node ''function_item'' 8 14 (2, 0) (3, 4) []"
        "Node ''line_comment'' 4 7 (1, 0) (1, 3) []"
        "[0, 1, 2, 3, 4, 5, 6, 7, 8, 9, 10, 11, 12, 13, 14, 15]" 12 "[]"]
  by (simp add: CHUNK_NODES_def slice_def)


lemma walk_children_all:
  assumes "\<And>c prev. c \<in> set cs \<Longrightarrow> \<forall>x \<in> set (walk code mc prev c []). P x"
  shows "\<forall>x \<in> set (walk_children code mc prev cs []). P x"
  using assms
proof (induction cs arbitrary: prev)
  case Nil
  then show ?case by simp
next
  case (Cons c cs)
  have 1: "\<forall>x \<in> set (walk code mc prev c []). P x"
    by (rule Cons.prems) simp
  have 2: "\<forall>x \<in> set (walk_children code mc (Some c) cs []). P x"
    by (rule Cons.IH) (rule Cons.prems, simp)
  show ?case
    unfolding walk_children_Cons_Nil using 1 2 by (simp add: ball_Un)
qed

lemma walk_all:
  assumes "\<And>m prev. node_type m \<in> CHUNK_NODES \<Longrightarrow>
             int (length (slice code (extended_start prev m) (end_byte m))) \<le> mc \<Longrightarrow>
             P (chunk_of code prev m)"
  shows "\<forall>x \<in> set (walk code mc prev n []). P x"
proof (induction n arbitrary: prev)
  case (Node ty sb eb sp ep cs)
  have kids: "\<forall>x \<in> set (walk_children code mc None cs []). P x"
    by (rule walk_children_all) (rule Node.IH)
  show ?case
  proof (cases "ty \<in> CHUNK_NODES \<and>
                int (length (slice code (extended_start prev (Node ty sb eb sp ep cs)) eb)) \<le> mc")
    case True
    then have "P (chunk_of code prev (Node ty sb eb sp ep cs))"
      using assms [of "Node ty sb eb sp ep cs" prev] by simp
    then show ?thesis
      using True by (simp add: Let_def chunk_of_def)
  next
    case False
    then show ?thesis
      using kids by (auto simp: Let_def)
  qed
qed

text \<open>
  C1, as the code has it: the size budget is a gate, not advice. A chunk-worthy node whose
  captured text is longer than \<open>max_chars\<close> is not appended; the walk goes on in its
  children, and when there are none the call appends nothing. Every chunk the walk appends
  has a text of at most \<open>max_chars\<close> characters.
\<close>

theorem oversized_unit_not_emitted:
  "(node_type n \<in> CHUNK_NODES
      \<and> int (length (slice code (extended_start prev n) (end_byte n))) > max_chars \<longrightarrow>
        walk code max_chars prev n chunks = walk_children code max_chars None (children n) chunks)
   \<and> (node_type n \<in> CHUNK_NODES
      \<and> int (length (slice code (extended_start prev n) (end_byte n))) > max_chars
      \<and> children n = [] \<longrightarrow>
        walk code max_chars prev n chunks = chunks)
   \<and> (\<forall>c \<in> set (walk code max_chars prev n []). int (length (chunk_text c)) \<le> max_chars)"
proof -
  have "\<forall>c \<in> set (walk code max_chars prev n []). int (length (chunk_text c)) \<le> max_chars"
    by (rule walk_all) (simp add: chunk_of_def)
  then show ?thesis
    by (simp add: walk_unit)
qed

theorem oversized_unit_not_emitted_witness:
  "node_type (Node ''function_definition'' 8 14 (2, 0) (3, 4) []) \<in> CHUNK_NODES
   \<and> int (length (slice [0, 1, 2, 3, 4, 5, 6, 7, 8, 9, 10, 11, 12, 13, 14, 15 :: nat]
            (extended_start None (Node ''function_definition'' 8 14 (2, 0) (3, 4) [])) 14)) > 5
   \<and> children (Node ''function_definition'' 8 14 (2, 0) (3, 4) []) = []
   \<and> walk [0, 1, 2, 3, 4, 5, 6, 7, 8, 9, 10, 11, 12, 13, 14, 15] 5 None
        (Node ''function_definition'' 8 14 (2, 0) (3, 4) []) [] = []
   \<and> walk [0, 1, 2, 3, 4, 5, 6, 7, 8, 9, 10, 11, 12, 13, 14, 15] 5 None
        (Node ''module'' 0 16 (0, 0) (4, 0)
           [Node ''function_definition'' 1 5 (1, 0) (1, 4) [],
            Node ''function_definition'' 8 14 (2, 0) (3, 4) []]) []
      = [\<lparr>chunk_type = ''function_definition'', chunk_text = [1, 2, 3, 4],
           start_line = 1, end_line = 1\<rparr>]
   \<and> int (length (chunk_text \<lparr>chunk_type = ''function_definition'',
          chunk_text = [1, 2, 3, 4 :: nat], start_line = 1, end_line = 1\<rparr>)) \<le> 5"
  using oversized_unit_not_emitted
    [where n = "Node ''function_definition'' 8 14 (2, 0) (3, 4) []"
       and code = "[0, 1, 2, 3, 4, 5, 6, 7, 8, 9, 10, 11, 12, 13, 14, 15]"
       and prev = None and max_chars = 5 and chunks = "[]"]
    oversized_unit_not_emitted
    [where n = "Node ''module'' 0 16 (0, 0) (4, 0)
           [Node ''function_definition'' 1 5 (1, 0) (1, 4) [],
            Node ''function_definition'' 8 14 (2, 0) (3, 4) []]"
       and code = "[0, 1, 2, 3, 4, 5, 6, 7, 8, 9, 10, 11, 12, 13, 14, 15]"
       and prev = None and max_chars = 5 and chunks = "[]"]
  by (simp add: CHUNK_NODES_def slice_def extended_start_def)

text \<open>
  The claim as written fails: a childless \<^verbatim>\<open>function_definition\<close> with 6 characters and
  a budget of 5 is dropped, and the file's result holds only the other function.
\<close>

theorem oversized_leaf_counterexample:
  "node_type (Node ''function_definition'' 8 14 (2, 0) (3, 4) []) \<in> CHUNK_NODES
   \<and> children (Node ''function_definition'' 8 14 (2, 0) (3, 4) []) = []
   \<and> int (length (slice [0, 1, 2, 3, 4, 5, 6, 7, 8, 9, 10, 11, 12, 13, 14, 15 :: nat]
            (extended_start None (Node ''function_definition'' 8 14 (2, 0) (3, 4) [])) 14)) > 5
   \<and> walk [0, 1, 2, 3, 4, 5, 6, 7, 8, 9, 10, 11, 12, 13, 14, 15] 5 None
        (Node ''function_definition'' 8 14 (2, 0) (3, 4) []) [] = []
   \<and> fallback [0, 1, 2, 3, 4, 5, 6, 7, 8, 9, 10, 11, 12, 13, 14, 15]
        (walk [0, 1, 2, 3, 4, 5, 6, 7, 8, 9, 10, 11, 12, 13, 14, 15] 5 None
           (Node ''module'' 0 16 (0, 0) (4, 0)
              [Node ''function_definition'' 1 5 (1, 0) (1, 4) [],
               Node ''function_definition'' 8 14 (2, 0) (3, 4) []]) [])
      = [\<lparr>chunk_type = ''function_definition'', chunk_text = [1, 2, 3, 4],
           start_line = 1, end_line = 1\<rparr>]"
  by (simp add: CHUNK_NODES_def slice_def extended_start_def fallback_def)


text \<open>
  C2, as the code has it: the start is extended before the size test (lines 84 to 91), so
  the text that is measured is the text that would be emitted. For a chunk-worthy node
  whose previous sibling is a comment, the node is kept exactly when the text from the
  comment's start byte to the node's end byte has at most \<open>max_chars\<close> characters;
  otherwise the walk goes into its children, the first of them with no previous sibling.
\<close>

theorem size_test_uses_extended_text:
  assumes "node_type n \<in> CHUNK_NODES" and "node_type p = ''comment''"
  shows "(int (length (slice code (start_byte p) (end_byte n))) \<le> max_chars \<longrightarrow>
            walk code max_chars (Some p) n chunks
            = chunks @ [\<lparr>chunk_type = node_type n,
                          chunk_text = slice code (start_byte p) (end_byte n),
                          start_line = fst (start_point n), end_line = fst (end_point n)\<rparr>])
       \<and> (int (length (slice code (start_byte p) (end_byte n))) > max_chars \<longrightarrow>
            walk code max_chars (Some p) n chunks
            = walk_children code max_chars None (children n) chunks)"
proof -
  have "extended_start (Some p) n = start_byte p"
    using assms(2) by (simp add: extended_start_def)
  then show ?thesis
    using assms(1) by (simp add: walk_unit)
qed

theorem size_test_uses_extended_text_witness:
  "node_type (Node ''class_definition'' 5 12 (1, 0) (3, 0)
                [Node ''function_definition'' 6 10 (2, 0) (2, 4) []]) \<in> CHUNK_NODES
   \<and> node_type (Node ''comment'' 0 5 (0, 0) (0, 5) []) = ''comment''
   \<and> int (length (slice [0, 1, 2, 3, 4, 5, 6, 7, 8, 9, 10, 11, 12, 13, 14, 15 :: nat] 0 12)) > 10
   \<and> int (length (slice [0, 1, 2, 3, 4, 5, 6, 7, 8, 9, 10, 11, 12, 13, 14, 15 :: nat] 0 12)) \<le> 12
   \<and> walk [0, 1, 2, 3, 4, 5, 6, 7, 8, 9, 10, 11, 12, 13, 14, 15] 10
        (Some (Node ''comment'' 0 5 (0, 0) (0, 5) []))
        (Node ''class_definition'' 5 12 (1, 0) (3, 0)
           [Node ''function_definition'' 6 10 (2, 0) (2, 4) []]) []
      = [\<lparr>chunk_type = ''function_definition'', chunk_text = [6, 7, 8, 9],
           start_line = 2, end_line = 2\<rparr>]
   \<and> walk [0, 1, 2, 3, 4, 5, 6, 7, 8, 9, 10, 11, 12, 13, 14, 15] 12
        (Some (Node ''comment'' 0 5 (0, 0) (0, 5) []))
        (Node ''class_definition'' 5 12 (1, 0) (3, 0)
           [Node ''function_definition'' 6 10 (2, 0) (2, 4) []]) []
      = [\<lparr>chunk_type = ''class_definition'',
           chunk_text = [0, 1, 2, 3, 4, 5, 6, 7, 8, 9, 10, 11],
           start_line = 1, end_line = 3\<rparr>]"
  using size_test_uses_extended_text
    [where n = "Node ''class_definition'' 5 12 (1, 0) (3, 0)
                  [Node ''function_definition'' 6 10 (2, 0) (2, 4) []]"
       and p = "Node ''comment'' 0 5 (0, 0) (0, 5) []"
       and code = "[0, 1, 2, 3, 4, 5, 6, 7, 8, 9, 10, 11, 12, 13, 14, 15]"
       and max_chars = 10 and chunks = "[]"]
    size_test_uses_extended_text
    [where n = "Node ''class_definition'' 5 12 (1, 0) (3, 0)
                  [Node ''function_definition'' 6 10 (2, 0) (2, 4) []]"
       and p = "Node ''comment'' 0 5 (0, 0) (0, 5) []"
       and code = "[0, 1, 2, 3, 4, 5, 6, 7, 8, 9, 10, 11, 12, 13, 14, 15]"
       and max_chars = 12 and chunks = "[]"]
  by (simp add: CHUNK_NODES_def slice_def extended_start_def)

text \<open>
  The claim as written fails: a class of 7 characters under a budget of 10 would be kept
  if its own start byte were measured from, but with the 5 characters of the comment
  before it the measured text has 12, and the class is split into its method.
\<close>

theorem size_test_own_start_counterexample:
  "node_type (Node ''class_definition'' 5 12 (1, 0) (3, 0)
                [Node ''function_definition'' 6 10 (2, 0) (2, 4) []]) \<in> CHUNK_NODES
   \<and> int (length (slice [0, 1, 2, 3, 4, 5, 6, 7, 8, 9, 10, 11, 12, 13, 14, 15 :: nat]
            (start_byte (Node ''class_definition'' 5 12 (1, 0) (3, 0)
                [Node ''function_definition'' 6 10 (2, 0) (2, 4) []]))
            (end_byte (Node ''class_definition'' 5 12 (1, 0) (3, 0)
                [Node ''function_definition'' 6 10 (2, 0) (2, 4) []])))) \<le> 10
   \<and> walk [0, 1, 2, 3, 4, 5, 6, 7, 8, 9, 10, 11, 12, 13, 14, 15] 10
        (Some (Node ''comment'' 0 5 (0, 0) (0, 5) []))
        (Node ''class_definition'' 5 12 (1, 0) (3, 0)
           [Node ''function_definition'' 6 10 (2, 0) (2, 4) []]) []
      = [\<lparr>chunk_type = ''function_definition'', chunk_text = [6, 7, 8, 9],
           start_line = 2, end_line = 2\<rparr>]"
  by (simp add: CHUNK_NODES_def slice_def extended_start_def)

text \<open>
  C3, as the code has it: classification is a lookup in one set of eight tags shared by
  all languages. The test is the same for every language; the two allow-lists the
  specification words are parts of that set; a tag outside the set is not a unit, and a
  node with such a tag is passed through to its children.
\<close>

theorem classification_is_language_independent:
  "is_chunk_unit t lang_id
     = (t = ''class_definition'' \<or> t = ''function_definition'' \<or> t = ''method_definition''
        \<or> t = ''class_declaration'' \<or> t = ''function_declaration'' \<or> t = ''func_literal''
        \<or> t = ''function_item'' \<or> t = ''impl_item'')
   \<and> is_chunk_unit t lang_id = is_chunk_unit t lang_id'
   \<and> (t \<in> spec_python_units \<longrightarrow> is_chunk_unit t ''python'')
   \<and> (t \<in> spec_rust_units \<longrightarrow> is_chunk_unit t ''rust'')
   \<and> (\<not> is_chunk_unit (node_type n) lang_id \<longrightarrow>
        walk code max_chars prev n chunks
        = walk_children code max_chars None (children n) chunks)"
proof -
  have 1: "is_chunk_unit t lang_id
     = (t = ''class_definition'' \<or> t = ''function_definition'' \<or> t = ''method_definition''
        \<or> t = ''class_declaration'' \<or> t = ''function_declaration'' \<or> t = ''func_literal''
        \<or> t = ''function_item'' \<or> t = ''impl_item'')"
    unfolding is_chunk_unit_def CHUNK_NODES_def insert_iff empty_iff by argo
  have 2: "is_chunk_unit t lang_id = is_chunk_unit t lang_id'"
    by (simp add: is_chunk_unit_def)
  have 3: "t \<in> spec_python_units \<longrightarrow> is_chunk_unit t ''python''"
    unfolding is_chunk_unit_def CHUNK_NODES_def spec_python_units_def insert_iff empty_iff
    by argo
  have 4: "t \<in> spec_rust_units \<longrightarrow> is_chunk_unit t ''rust''"
    unfolding is_chunk_unit_def CHUNK_NODES_def spec_rust_units_def insert_iff empty_iff
    by argo
  have 5: "\<not> is_chunk_unit (node_type n) lang_id \<longrightarrow>
        walk code max_chars prev n chunks
        = walk_children code max_chars None (children n) chunks"
    by (simp add: is_chunk_unit_def walk_non_unit)
  show ?thesis
    by (rule conjI [OF 1 conjI [OF 2 conjI [OF 3 conjI [OF 4 5]]]])
qed

theorem classification_is_language_independent_witness:
  "''function_item'' \<in> spec_rust_units
   \<and> is_chunk_unit ''function_item'' ''rust''
   \<and> is_chunk_unit ''function_item'' ''python''
   \<and> ''class_definition'' \<in> spec_python_units
   \<and> is_chunk_unit ''class_definition'' ''python''
   \<and> \<not> is_chunk_unit (node_type (Node ''module'' 0 16 (0, 0) (4, 0)
                 [Node ''function_item'' 1 5 (1, 0) (1, 4) []])) ''rust''
   \<and> walk [0, 1, 2, 3, 4, 5, 6, 7, 8, 9, 10, 11, 12, 13, 14, 15] 10 None
        (Node ''module'' 0 16 (0, 0) (4, 0)
           [Node ''function_item'' 1 5 (1, 0) (1, 4) []]) []
      = walk_children [0, 1, 2, 3, 4, 5, 6, 7, 8, 9, 10, 11, 12, 13, 14, 15] 10 None
          [Node ''function_item'' 1 5 (1, 0) (1, 4) []] []"
  using classification_is_language_independent
    [where t = "''function_item''" and lang_id = "''rust''" and lang_id' = "''python''"
       and n = "Node ''module'' 0 16 (0, 0) (4, 0)
                  [Node ''function_item'' 1 5 (1, 0) (1, 4) []]"
       and code = "[0, 1, 2, 3, 4, 5, 6, 7, 8, 9, 10, 11, 12, 13, 14, 15]"
       and max_chars = 10 and prev = None and chunks = "[]"]
    classification_is_language_independent
    [where t = "''class_definition''" and lang_id = "''python''" and lang_id' = "''python''"
       and n = "Node ''module'' 0 16 (0, 0) (4, 0)
                  [Node ''function_item'' 1 5 (1, 0) (1, 4) []]"
       and code = "[0, 1, 2, 3, 4, 5, 6, 7, 8, 9, 10, 11, 12, 13, 14, 15]"
       and max_chars = 10 and prev = None and chunks = "[]"]
  by (simp add: is_chunk_unit_def CHUNK_NODES_def spec_rust_units_def spec_python_units_def)

text \<open>
  The claim as written fails: for python the tag \<^verbatim>\<open>function_item\<close> is classified as a
  unit although it is not in the python allow-list of the specification, and for rust
  \<^verbatim>\<open>class_definition\<close> is.
\<close>

theorem per_language_lookup_counterexample:
  "is_chunk_unit ''function_item'' ''python'' \<and> ''function_item'' \<notin> spec_python_units
   \<and> is_chunk_unit ''class_definition'' ''rust'' \<and> ''class_definition'' \<notin> spec_rust_units"
  by (simp add: is_chunk_unit_def CHUNK_NODES_def spec_rust_units_def spec_python_units_def)


section \<open>The fallback and the entry point\<close>

lemma strip_empty_iff: "strip s = [] \<longleftrightarrow> (\<forall>c \<in> set s. py_isspace c)"
proof
  assume "strip s = []"
  then have all: "\<forall>x \<in> set (dropWhile py_isspace s). py_isspace x"
    by (simp add: strip_def dropWhile_eq_Nil_conv)
  have "dropWhile py_isspace s = []"
  proof (rule ccontr)
    assume ne: "dropWhile py_isspace s \<noteq> []"
    then have "\<not> py_isspace (hd (dropWhile py_isspace s))"
      by (rule hd_dropWhile)
    moreover have "hd (dropWhile py_isspace s) \<in> set (dropWhile py_isspace s)"
      using ne by simp
    ultimately show False
      using all by blast
  qed
  then show "\<forall>c \<in> set s. py_isspace c"
    by (simp add: dropWhile_eq_Nil_conv)
next
  assume "\<forall>c \<in> set s. py_isspace c"
  then have d: "dropWhile py_isspace s = []"
    by (simp add: dropWhile_eq_Nil_conv)
  show "strip s = []"
    unfolding strip_def d by simp
qed

lemma splitlines_from_newlines:
  assumes "\<forall>c \<in> set s. is_linebreak c \<longrightarrow> c = 10"
  shows "length (splitlines_from cur s)
         = count_list s 10
           + (if s = [] then (if cur = [] then 0 else 1) else if last s = 10 then 0 else 1)"
  using assms
proof (induction s arbitrary: cur)
  case Nil
  then show ?case by simp
next
  case (Cons c cs)
  have lb10: "is_linebreak 10"
    by (simp add: is_linebreak_def)
  show ?case
  proof (cases "is_linebreak c")
    case True
    then have c: "c = 10"
      using Cons.prems by simp
    show ?thesis
    proof (cases cs)
      case Nil
      then show ?thesis using c lb10 by simp
    next
      case (Cons d ds)
      have "length (splitlines_from [] cs)
            = count_list cs 10 + (if last cs = 10 then 0 else 1)"
        using Cons.IH [of "[]"] Cons.prems Cons by simp
      then show ?thesis
        using c lb10 Cons by simp
    qed
  next
    case False
    then have c: "c \<noteq> 10"
      using lb10 by auto
    have "length (splitlines_from (cur @ [c]) cs)
          = count_list cs 10 + (if cs = [] then 1 else if last cs = 10 then 0 else 1)"
      using Cons.IH [of "cur @ [c]"] Cons.prems by simp
    then show ?thesis
      using False c by simp
  qed
qed

lemma walk_chunk_types: "\<forall>c \<in> set (walk code mc prev n []). chunk_type c \<in> CHUNK_NODES"
  by (rule walk_all) (simp add: chunk_of_def)

lemma file_not_unit: "''file'' \<notin> CHUNK_NODES"
  by (simp add: CHUNK_NODES_def)

text \<open>
  C4, as the code has it: with the parser's tree \<open>root\<close> for the code and a walk that
  fits the interpreter's stack, \<^verbatim>\<open>_parse\<close> adds the fallback chunk exactly when the walk
  found no chunk and the stripped code is not empty. The result is then that one chunk:
  type \<^verbatim>\<open>file\<close>, the whole code untrimmed, start line 0 and as end line the number of
  lines \<^verbatim>\<open>splitlines\<close> counts, which breaks lines at every line boundary of Python and
  not only at newlines; that number is the number of newline-delimited lines when the
  newline is the only line boundary in the code. In every other case the result is the
  walk's list, which holds no chunk of type \<^verbatim>\<open>file\<close>; for a code that is empty or all
  whitespace, with nothing found by the walk, it is the empty list.
\<close>

theorem fallback_chunk_iff:
  assumes "ts_parse e lang_id code = Inr root"
    and "recursion_error e code max_chars root = None"
  shows "(walk code max_chars None root [] = [] \<and> strip code \<noteq> [] \<longrightarrow>
            CodeChunkerMS_parse e code lang_id max_chars
            = Inr [\<lparr>chunk_type = ''file'', chunk_text = code,
                     start_line = 0, end_line = length (splitlines code)\<rparr>])
       \<and> (\<not> (walk code max_chars None root [] = [] \<and> strip code \<noteq> []) \<longrightarrow>
            CodeChunkerMS_parse e code lang_id max_chars = Inr (walk code max_chars None root [])
            \<and> (\<forall>c \<in> set (walk code max_chars None root []). chunk_type c \<noteq> ''file''))
       \<and> (walk code max_chars None root [] = [] \<and> (\<forall>c \<in> set code. py_isspace c) \<longrightarrow>
            CodeChunkerMS_parse e code lang_id max_chars = Inr [])
       \<and> (strip code = [] \<longleftrightarrow> (\<forall>c \<in> set code. py_isspace c))
       \<and> ((\<forall>c \<in> set code. is_linebreak c \<longrightarrow> c = 10) \<longrightarrow>
            length (splitlines code) = spec_newline_lines code)"
proof -
  have 1: "walk code max_chars None root [] = [] \<and> strip code \<noteq> [] \<longrightarrow>
            CodeChunkerMS_parse e code lang_id max_chars
            = Inr [\<lparr>chunk_type = ''file'', chunk_text = code,
                     start_line = 0, end_line = length (splitlines code)\<rparr>]"
    using assms by (simp add: CodeChunkerMS_parse_def fallback_def)
  have "\<forall>c \<in> set (walk code max_chars None root []). chunk_type c \<noteq> ''file''"
    using walk_chunk_types [of code max_chars None root] file_not_unit by metis
  then have 2: "\<not> (walk code max_chars None root [] = [] \<and> strip code \<noteq> []) \<longrightarrow>
            CodeChunkerMS_parse e code lang_id max_chars = Inr (walk code max_chars None root [])
            \<and> (\<forall>c \<in> set (walk code max_chars None root []). chunk_type c \<noteq> ''file'')"
    using assms by (simp add: CodeChunkerMS_parse_def fallback_def)
  have 4: "strip code = [] \<longleftrightarrow> (\<forall>c \<in> set code. py_isspace c)"
    by (rule strip_empty_iff)
  have 3: "walk code max_chars None root [] = [] \<and> (\<forall>c \<in> set code. py_isspace c) \<longrightarrow>
            CodeChunkerMS_parse e code lang_id max_chars = Inr []"
    using assms 4 by (simp add: CodeChunkerMS_parse_def fallback_def)
  have 5: "(\<forall>c \<in> set code. is_linebreak c \<longrightarrow> c = 10) \<longrightarrow>
            length (splitlines code) = spec_newline_lines code"
    using splitlines_from_newlines [of code "[]"]
    by (simp add: splitlines_def spec_newline_lines_def)
  show ?thesis
    by (rule conjI [OF 1 conjI [OF 2 conjI [OF 3 conjI [OF 4 5]]]])
qed

theorem fallback_chunk_iff_witness:
  "ts_parse \<lparr>available = True, suffix_lower = (\<lambda>p. py_str ''.py''),
              read_text = (\<lambda>p. Inr [120, 32, 61, 32, 49, 10, 121, 32, 61, 32, 50, 10]),
              ts_parse = (\<lambda>l c. Inr (Node ''module'' 0 12 (0, 0) (2, 0)
                 [Node ''expression_statement'' 0 5 (0, 0) (0, 5) [],
                  Node ''expression_statement'' 6 11 (1, 0) (1, 5) []])),
              recursion_error = (\<lambda>c m r. None), py_print = (\<lambda>m. None)\<rparr>
      ''python'' [120, 32, 61, 32, 49, 10, 121, 32, 61, 32, 50, 10]
    = Inr (Node ''module'' 0 12 (0, 0) (2, 0)
                 [Node ''expression_statement'' 0 5 (0, 0) (0, 5) [],
                  Node ''expression_statement'' 6 11 (1, 0) (1, 5) []])
   \<and> recursion_error \<lparr>available = True, suffix_lower = (\<lambda>p. py_str ''.py''),
              read_text = (\<lambda>p. Inr [120, 32, 61, 32, 49, 10, 121, 32, 61, 32, 50, 10]),
              ts_parse = (\<lambda>l c. Inr (Node ''module'' 0 12 (0, 0) (2, 0)
                 [Node ''expression_statement'' 0 5 (0, 0) (0, 5) [],
                  Node ''expression_statement'' 6 11 (1, 0) (1, 5) []])),
              recursion_error = (\<lambda>c m r. None), py_print = (\<lambda>m. None)\<rparr>
        [120, 32, 61, 32, 49, 10, 121, 32, 61, 32, 50, 10] 1500
        (Node ''module'' 0 12 (0, 0) (2, 0)
                 [Node ''expression_statement'' 0 5 (0, 0) (0, 5) [],
                  Node ''expression_statement'' 6 11 (1, 0) (1, 5) []]) = None
   \<and> walk [120, 32, 61, 32, 49, 10, 121, 32, 61, 32, 50, 10] 1500 None
        (Node ''module'' 0 12 (0, 0) (2, 0)
                 [Node ''expression_statement'' 0 5 (0, 0) (0, 5) [],
                  Node ''expression_statement'' 6 11 (1, 0) (1, 5) []]) [] = []
   \<and> strip [120, 32, 61, 32, 49, 10, 121, 32, 61, 32, 50, 10] \<noteq> []
   \<and> CodeChunkerMS_parse
        \<lparr>available = True, suffix_lower = (\<lambda>p. py_str ''.py''),
              read_text = (\<lambda>p. Inr [120, 32, 61, 32, 49, 10, 121, 32, 61, 32, 50, 10]),
              ts_parse = (\<lambda>l c. Inr (Node ''module'' 0 12 (0, 0) (2, 0)
                 [Node ''expression_statement'' 0 5 (0, 0) (0, 5) [],
                  Node ''expression_statement'' 6 11 (1, 0) (1, 5) []])),
              recursion_error = (\<lambda>c m r. None), py_print = (\<lambda>m. None)\<rparr>
        [120, 32, 61, 32, 49, 10, 121, 32, 61, 32, 50, 10] ''python'' 1500
      = Inr [\<lparr>chunk_type = ''file'',
              chunk_text = [120, 32, 61, 32, 49, 10, 121, 32, 61, 32, 50, 10],
              start_line = 0, end_line = 2\<rparr>]
   \<and> spec_newline_lines [120, 32, 61, 32, 49, 10, 121, 32, 61, 32, 50, 10] = 2
   \<and> CodeChunkerMS_parse
        \<lparr>available = True, suffix_lower = (\<lambda>p. py_str ''.py''),
              read_text = (\<lambda>p. Inr [32, 10, 9, 32]),
              ts_parse = (\<lambda>l c. Inr (Node ''module'' 0 0 (0, 0) (0, 0) [])),
              recursion_error = (\<lambda>c m r. None), py_print = (\<lambda>m. None)\<rparr>
        [32, 10, 9, 32] ''python'' 1500
      = Inr []"
  using fallback_chunk_iff
    [where e = "\<lparr>available = True, suffix_lower = (\<lambda>p. py_str ''.py''),
              read_text = (\<lambda>p. Inr [120, 32, 61, 32, 49, 10, 121, 32, 61, 32, 50, 10]),
              ts_parse = (\<lambda>l c. Inr (Node ''module'' 0 12 (0, 0) (2, 0)
                 [Node ''expression_statement'' 0 5 (0, 0) (0, 5) [],
                  Node ''expression_statement'' 6 11 (1, 0) (1, 5) []])),
              recursion_error = (\<lambda>c m r. None), py_print = (\<lambda>m. None)\<rparr>"
       and lang_id = "''python''"
       and code = "[120, 32, 61, 32, 49, 10, 121, 32, 61, 32, 50, 10]"
       and root = "Node ''module'' 0 12 (0, 0) (2, 0)
                 [Node ''expression_statement'' 0 5 (0, 0) (0, 5) [],
                  Node ''expression_statement'' 6 11 (1, 0) (1, 5) []]"
       and max_chars = 1500]
    fallback_chunk_iff
    [where e = "\<lparr>available = True, suffix_lower = (\<lambda>p. py_str ''.py''),
              read_text = (\<lambda>p. Inr [32, 10, 9, 32]),
              ts_parse = (\<lambda>l c. Inr (Node ''module'' 0 0 (0, 0) (0, 0) [])),
              recursion_error = (\<lambda>c m r. None), py_print = (\<lambda>m. None)\<rparr>"
       and lang_id = "''python''"
       and code = "[32, 10, 9, 32]"
       and root = "Node ''module'' 0 0 (0, 0) (0, 0) []"
       and max_chars = 1500]
  by (simp add: CHUNK_NODES_def strip_def py_isspace_def splitlines_def is_linebreak_def
        spec_newline_lines_def)

text \<open>
  The claim as written fails: the three characters \<^verbatim>\<open>a\<close>, form feed, \<^verbatim>\<open>b\<close> hold no newline
  and make one newline-delimited line, and the fallback chunk's end line is 2.
\<close>

theorem newline_lines_counterexample:
  "CodeChunkerMS_parse
        \<lparr>available = True, suffix_lower = (\<lambda>p. py_str ''.py''),
              read_text = (\<lambda>p. Inr [97, 12, 98]),
              ts_parse = (\<lambda>l c. Inr (Node ''module'' 0 3 (0, 0) (0, 3) [])),
              recursion_error = (\<lambda>c m r. None), py_print = (\<lambda>m. None)\<rparr>
        [97, 12, 98] ''python'' 1500
      = Inr [\<lparr>chunk_type = ''file'', chunk_text = [97, 12, 98],
              start_line = 0, end_line = 2\<rparr>]
   \<and> spec_newline_lines [97, 12, 98] = 1"
  by (simp add: CodeChunkerMS_parse_def fallback_def CHUNK_NODES_def strip_def py_isspace_def
        splitlines_def is_linebreak_def spec_newline_lines_def)


text \<open>
  C9, as the code has it: \<^verbatim>\<open>chunk_file\<close> returns the empty list without tree-sitter and
  for an extension that \<open>LANG_MAP\<close> does not hold. An exception raised while the file is
  read or anywhere in \<^verbatim>\<open>_parse\<close> (by the parser, or by the interpreter when the walk goes
  beyond the recursion limit) is caught; the handler prints a message and the result is
  the empty list when that \<^verbatim>\<open>print\<close> succeeds, and the exception of the \<^verbatim>\<open>print\<close> leaves
  \<^verbatim>\<open>chunk_file\<close> when it does not. Where no \<^verbatim>\<open>print\<close> fails, \<^verbatim>\<open>chunk_file\<close> returns a list
  on every path; without an exception it is the list \<^verbatim>\<open>_parse\<close> returns.
\<close>

theorem chunk_file_raises_only_from_print:
  "(\<not> available e \<longrightarrow> chunk_file e file_path max_chars = Inr [])
   \<and> (LANG_MAP (suffix_lower e file_path) = None \<longrightarrow>
        chunk_file e file_path max_chars = Inr [])
   \<and> (ts_parse e lang_id code = Inl x \<longrightarrow>
        CodeChunkerMS_parse e code lang_id max_chars = Inl x)
   \<and> (ts_parse e lang_id code = Inr root \<and> recursion_error e code max_chars root = Some x \<longrightarrow>
        CodeChunkerMS_parse e code lang_id max_chars = Inl x)
   \<and> (available e \<and> LANG_MAP (suffix_lower e file_path) = Some lang_id
        \<and> (read_text e file_path = Inl x
           \<or> read_text e file_path = Inr code
             \<and> CodeChunkerMS_parse e code lang_id max_chars = Inl x)
        \<and> py_print e (error_message file_path x) = None \<longrightarrow>
        chunk_file e file_path max_chars = Inr [])
   \<and> (available e \<and> LANG_MAP (suffix_lower e file_path) = Some lang_id
        \<and> (read_text e file_path = Inl x
           \<or> read_text e file_path = Inr code
             \<and> CodeChunkerMS_parse e code lang_id max_chars = Inl x)
        \<and> py_print e (error_message file_path x) = Some y \<longrightarrow>
        chunk_file e file_path max_chars = Inl y)
   \<and> (available e \<and> LANG_MAP (suffix_lower e file_path) = Some lang_id
        \<and> read_text e file_path = Inr code
        \<and> ts_parse e lang_id code = Inr root
        \<and> recursion_error e code max_chars root = None \<longrightarrow>
        chunk_file e file_path max_chars
        = Inr (fallback code (walk code max_chars None root [])))
   \<and> ((\<forall>m. py_print e m = None) \<longrightarrow>
        (\<exists>chunks. chunk_file e file_path max_chars = Inr chunks))"
proof -
  have 1: "\<not> available e \<longrightarrow> chunk_file e file_path max_chars = Inr []"
    by (simp add: chunk_file_def)
  have 2: "LANG_MAP (suffix_lower e file_path) = None \<longrightarrow>
        chunk_file e file_path max_chars = Inr []"
    by (simp add: chunk_file_def)
  have 3: "ts_parse e lang_id code = Inl x \<longrightarrow>
        CodeChunkerMS_parse e code lang_id max_chars = Inl x"
    by (simp add: CodeChunkerMS_parse_def)
  have 4: "ts_parse e lang_id code = Inr root \<and> recursion_error e code max_chars root = Some x \<longrightarrow>
        CodeChunkerMS_parse e code lang_id max_chars = Inl x"
    by (simp add: CodeChunkerMS_parse_def)
  have 5: "available e \<and> LANG_MAP (suffix_lower e file_path) = Some lang_id
        \<and> (read_text e file_path = Inl x
           \<or> read_text e file_path = Inr code
             \<and> CodeChunkerMS_parse e code lang_id max_chars = Inl x)
        \<and> py_print e (error_message file_path x) = None \<longrightarrow>
        chunk_file e file_path max_chars = Inr []"
    by (auto simp: chunk_file_def handler_def)
  have 6: "available e \<and> LANG_MAP (suffix_lower e file_path) = Some lang_id
        \<and> (read_text e file_path = Inl x
           \<or> read_text e file_path = Inr code
             \<and> CodeChunkerMS_parse e code lang_id max_chars = Inl x)
        \<and> py_print e (error_message file_path x) = Some y \<longrightarrow>
        chunk_file e file_path max_chars = Inl y"
    by (auto simp: chunk_file_def handler_def)
  have 7: "available e \<and> LANG_MAP (suffix_lower e file_path) = Some lang_id
        \<and> read_text e file_path = Inr code
        \<and> ts_parse e lang_id code = Inr root
        \<and> recursion_error e code max_chars root = None \<longrightarrow>
        chunk_file e file_path max_chars
        = Inr (fallback code (walk code max_chars None root []))"
    by (simp add: chunk_file_def CodeChunkerMS_parse_def)
  have 8: "(\<forall>m. py_print e m = None) \<longrightarrow>
        (\<exists>chunks. chunk_file e file_path max_chars = Inr chunks)"
    by (simp add: chunk_file_def handler_def split: option.splits sum.splits)
  show ?thesis
    by (rule conjI [OF 1 conjI [OF 2 conjI [OF 3 conjI [OF 4 conjI [OF 5
          conjI [OF 6 conjI [OF 7 8]]]]]]])
qed


theorem chunk_file_raises_only_from_print_witness:
  "LANG_MAP (suffix_lower
       \<lparr>available = True, suffix_lower = (\<lambda>p. py_str ''.py''),
        read_text = (\<lambda>p. Inr [120, 32, 61, 32, 49, 10]),
        ts_parse = (\<lambda>l c. Inl (Exception (py_str ''parse error''))),
        recursion_error = (\<lambda>c m r. None), py_print = (\<lambda>m. None)\<rparr> (py_str ''a.py'')) = Some ''python''
   \<and> CodeChunkerMS_parse
       \<lparr>available = True, suffix_lower = (\<lambda>p. py_str ''.py''),
        read_text = (\<lambda>p. Inr [120, 32, 61, 32, 49, 10]),
        ts_parse = (\<lambda>l c. Inl (Exception (py_str ''parse error''))),
        recursion_error = (\<lambda>c m r. None), py_print = (\<lambda>m. None)\<rparr> [120, 32, 61, 32, 49, 10] ''python'' 1500
     = Inl (Exception (py_str ''parse error''))
   \<and> py_print
       \<lparr>available = True, suffix_lower = (\<lambda>p. py_str ''.py''),
        read_text = (\<lambda>p. Inr [120, 32, 61, 32, 49, 10]),
        ts_parse = (\<lambda>l c. Inl (Exception (py_str ''parse error''))),
        recursion_error = (\<lambda>c m r. None), py_print = (\<lambda>m. None)\<rparr>
       (error_message (py_str ''a.py'') (Exception (py_str ''parse error''))) = None
   \<and> chunk_file
       \<lparr>available = True, suffix_lower = (\<lambda>p. py_str ''.py''),
        read_text = (\<lambda>p. Inr [120, 32, 61, 32, 49, 10]),
        ts_parse = (\<lambda>l c. Inl (Exception (py_str ''parse error''))),
        recursion_error = (\<lambda>c m r. None), py_print = (\<lambda>m. None)\<rparr> (py_str ''a.py'') 1500 = Inr []
   \<and> LANG_MAP (suffix_lower
       \<lparr>available = True, suffix_lower = (\<lambda>p. py_str ''.txt''),
        read_text = (\<lambda>p. Inr [120, 32, 61, 32, 49, 10]),
        ts_parse = (\<lambda>l c. Inr (Node ''module'' 0 6 (0, 0) (1, 0) [])),
        recursion_error = (\<lambda>c m r. None), py_print = (\<lambda>m. None)\<rparr> (py_str ''a.txt'')) = None
   \<and> chunk_file
       \<lparr>available = True, suffix_lower = (\<lambda>p. py_str ''.txt''),
        read_text = (\<lambda>p. Inr [120, 32, 61, 32, 49, 10]),
        ts_parse = (\<lambda>l c. Inr (Node ''module'' 0 6 (0, 0) (1, 0) [])),
        recursion_error = (\<lambda>c m r. None), py_print = (\<lambda>m. None)\<rparr> (py_str ''a.txt'') 1500 = Inr []
   \<and> CodeChunkerMS_parse
       \<lparr>available = True, suffix_lower = (\<lambda>p. py_str ''.py''),
        read_text = (\<lambda>p. Inr [120, 32, 61, 32, 49, 10]),
        ts_parse = (\<lambda>l c. Inr (Node ''module'' 0 6 (0, 0) (1, 0)
           [Node ''function_definition'' 0 5 (0, 0) (0, 5) []])),
        recursion_error =
          (\<lambda>c m r. Some (Exception (py_str ''maximum recursion depth exceeded''))),
        py_print = (\<lambda>m. None)\<rparr> [120, 32, 61, 32, 49, 10] ''python'' 1500
     = Inl (Exception (py_str ''maximum recursion depth exceeded''))
   \<and> chunk_file
       \<lparr>available = True, suffix_lower = (\<lambda>p. py_str ''.py''),
        read_text = (\<lambda>p. Inr [120, 32, 61, 32, 49, 10]),
        ts_parse = (\<lambda>l c. Inr (Node ''module'' 0 6 (0, 0) (1, 0)
           [Node ''function_definition'' 0 5 (0, 0) (0, 5) []])),
        recursion_error =
          (\<lambda>c m r. Some (Exception (py_str ''maximum recursion depth exceeded''))),
        py_print = (\<lambda>m. None)\<rparr> (py_str ''a.py'') 1500 = Inr []
   \<and> chunk_file
       \<lparr>available = True, suffix_lower = (\<lambda>p. py_str ''.py''),
        read_text = (\<lambda>p. Inr [120, 32, 61, 32, 49, 10]),
        ts_parse = (\<lambda>l c. Inr (Node ''module'' 0 6 (0, 0) (1, 0)
           [Node ''function_definition'' 0 5 (0, 0) (0, 5) []])),
        recursion_error = (\<lambda>c m r. None), py_print = (\<lambda>m. None)\<rparr> (py_str ''a.py'') 1500
     = Inr [\<lparr>chunk_type = ''function_definition'', chunk_text = [120, 32, 61, 32, 49],
              start_line = 0, end_line = 0\<rparr>]"
  using chunk_file_raises_only_from_print
    [where e = "\<lparr>available = True, suffix_lower = (\<lambda>p. py_str ''.py''),
        read_text = (\<lambda>p. Inr [120, 32, 61, 32, 49, 10]),
        ts_parse = (\<lambda>l c. Inl (Exception (py_str ''parse error''))),
        recursion_error = (\<lambda>c m r. None), py_print = (\<lambda>m. None)\<rparr>"
       and file_path = "py_str ''a.py''" and max_chars = 1500 and lang_id = "''python''"
       and code = "[120, 32, 61, 32, 49, 10]" and x = "Exception (py_str ''parse error'')"]
    chunk_file_raises_only_from_print
    [where e = "\<lparr>available = True, suffix_lower = (\<lambda>p. py_str ''.txt''),
        read_text = (\<lambda>p. Inr [120, 32, 61, 32, 49, 10]),
        ts_parse = (\<lambda>l c. Inr (Node ''module'' 0 6 (0, 0) (1, 0) [])),
        recursion_error = (\<lambda>c m r. None), py_print = (\<lambda>m. None)\<rparr>"
       and file_path = "py_str ''a.txt''" and max_chars = 1500]
    chunk_file_raises_only_from_print
    [where e = "\<lparr>available = True, suffix_lower = (\<lambda>p. py_str ''.py''),
        read_text = (\<lambda>p. Inr [120, 32, 61, 32, 49, 10]),
        ts_parse = (\<lambda>l c. Inr (Node ''module'' 0 6 (0, 0) (1, 0)
           [Node ''function_definition'' 0 5 (0, 0) (0, 5) []])),
        recursion_error =
          (\<lambda>c m r. Some (Exception (py_str ''maximum recursion depth exceeded''))),
        py_print = (\<lambda>m. None)\<rparr>"
       and file_path = "py_str ''a.py''" and max_chars = 1500 and lang_id = "''python''"
       and code = "[120, 32, 61, 32, 49, 10]"
       and root = "Node ''module'' 0 6 (0, 0) (1, 0)
           [Node ''function_definition'' 0 5 (0, 0) (0, 5) []]"
       and x = "Exception (py_str ''maximum recursion depth exceeded'')"]
    chunk_file_raises_only_from_print
    [where e = "\<lparr>available = True, suffix_lower = (\<lambda>p. py_str ''.py''),
        read_text = (\<lambda>p. Inr [120, 32, 61, 32, 49, 10]),
        ts_parse = (\<lambda>l c. Inr (Node ''module'' 0 6 (0, 0) (1, 0)
           [Node ''function_definition'' 0 5 (0, 0) (0, 5) []])),
        recursion_error = (\<lambda>c m r. None), py_print = (\<lambda>m. None)\<rparr>"
       and file_path = "py_str ''a.py''" and max_chars = 1500 and lang_id = "''python''"
       and code = "[120, 32, 61, 32, 49, 10]"
       and root = "Node ''module'' 0 6 (0, 0) (1, 0)
           [Node ''function_definition'' 0 5 (0, 0) (0, 5) []]"]
  by (simp add: LANG_MAP_def py_str_def CHUNK_NODES_def fallback_def slice_def
        extended_start_def)

text \<open>
  The claim as written fails: the path \<^verbatim>\<open>a\udc80.py\<close> holds a lone surrogate, the parser
  raises on the file, and the standard output refuses to encode the surrogate in the
  handler's message; the exception of the \<^verbatim>\<open>print\<close> leaves \<^verbatim>\<open>chunk_file\<close>.
\<close>

theorem print_failure_counterexample:
  "chunk_file
       \<lparr>available = True, suffix_lower = (\<lambda>p. py_str ''.py''),
        read_text = (\<lambda>p. Inr [120, 32, 61, 32, 49, 10]),
        ts_parse = (\<lambda>l c. Inl (Exception (py_str ''parse error''))),
        recursion_error = (\<lambda>c m r. None),
        py_print = (\<lambda>m. if list_ex (\<lambda>c. 55296 \<le> c \<and> c \<le> 57343) m
                           then Some (Exception (py_str ''surrogates not allowed''))
                           else None)\<rparr>
       [97, 56448, 46, 112, 121] 1500
     = Inl (Exception (py_str ''surrogates not allowed''))"
  by (simp add: chunk_file_def CodeChunkerMS_parse_def handler_def error_message_def
        LANG_MAP_def py_str_def)

section \<open>Order of the chunks\<close>

lemma sorted_wrt_subseq:
  assumes "subseq xs ys" and "sorted_wrt R ys"
  shows "sorted_wrt R xs"
  using assms
proof (induction rule: list_emb.induct)
  case (list_emb_Nil ys)
  then show ?case by simp
next
  case (list_emb_Cons xs ys y)
  then show ?case by simp
next
  case (list_emb_Cons2 x y xs ys)
  have "set xs \<subseteq> set ys"
    using list_emb_Cons2.hyps(2) by (auto dest: list_emb_set)
  then show ?case
    using list_emb_Cons2 by auto
qed

lemma walk_children_subseq:
  assumes "\<And>c prev. c \<in> set cs \<Longrightarrow>
             subseq (map chunk_span (walk code mc prev c [])) (map node_span (preorder c))"
  shows "subseq (map chunk_span (walk_children code mc prev cs []))
                (map node_span (concat (map preorder cs)))"
  using assms
proof (induction cs arbitrary: prev)
  case Nil
  then show ?case by simp
next
  case (Cons c cs)
  have 1: "subseq (map chunk_span (walk code mc prev c [])) (map node_span (preorder c))"
    by (rule Cons.prems) simp
  have 2: "subseq (map chunk_span (walk_children code mc (Some c) cs []))
                  (map node_span (concat (map preorder cs)))"
    by (rule Cons.IH) (rule Cons.prems, simp)
  show ?case
    unfolding walk_children_Cons_Nil using list_emb_append_mono [OF 1 2] by simp
qed

lemma walk_subseq:
  "subseq (map chunk_span (walk code mc prev n [])) (map node_span (preorder n))"
proof (induction n arbitrary: prev)
  case (Node ty sb eb sp ep cs)
  have kids: "subseq (map chunk_span (walk_children code mc None cs []))
                     (map node_span (concat (map preorder cs)))"
    by (rule walk_children_subseq) (rule Node.IH)
  show ?case
  proof (cases "ty \<in> CHUNK_NODES \<and>
                int (length (slice code (extended_start prev (Node ty sb eb sp ep cs)) eb)) \<le> mc")
    case True
    then show ?thesis
      by (simp add: Let_def chunk_span_def node_span_def)
  next
    case False
    then show ?thesis
      using kids by (auto simp: Let_def)
  qed
qed

text \<open>
  C8: when the start lines of the tree's nodes, taken in pre-order with children from
  left to right, never decrease, the start lines of the chunks never decrease either, in
  the walk's list and in the list \<^verbatim>\<open>_parse\<close> returns. The chunks stand in the order of the
  nodes they were made from: their tags and lines are a subsequence of those of the
  nodes in pre-order.
\<close>

theorem chunks_in_document_order:
  assumes "sorted (map (\<lambda>n. fst (start_point n)) (preorder root))"
  shows "sorted (map start_line (walk code max_chars None root []))
       \<and> sorted (map start_line (fallback code (walk code max_chars None root [])))
       \<and> subseq (map chunk_span (walk code max_chars None root []))
                (map node_span (preorder root))"
proof -
  have sub: "subseq (map chunk_span (walk code max_chars None root []))
                    (map node_span (preorder root))"
    by (rule walk_subseq)
  have "subseq (map (fst \<circ> snd) (map chunk_span (walk code max_chars None root [])))
               (map (fst \<circ> snd) (map node_span (preorder root)))"
    using sub by (rule subseq_map)
  then have "subseq (map start_line (walk code max_chars None root []))
                    (map (\<lambda>n. fst (start_point n)) (preorder root))"
    by (simp add: chunk_span_def node_span_def comp_def)
  then have 1: "sorted (map start_line (walk code max_chars None root []))"
    using assms by (rule sorted_wrt_subseq)
  then have 2: "sorted (map start_line (fallback code (walk code max_chars None root [])))"
    by (simp add: fallback_def)
  show ?thesis
    using 1 2 sub by simp
qed

theorem chunks_in_document_order_witness:
  "sorted (map (\<lambda>n. fst (start_point n))
      (preorder (Node ''module'' 0 16 (0, 0) (6, 0)
         [Node ''comment'' 0 2 (0, 0) (0, 2) [],
          Node ''function_definition'' 3 6 (1, 0) (2, 3) [],
          Node ''class_definition'' 7 15 (4, 0) (5, 9)
            [Node ''function_definition'' 8 11 (4, 4) (4, 7) [],
             Node ''function_definition'' 12 15 (5, 4) (5, 7) []]])))
   \<and> map start_line (walk [0, 1, 2, 3, 4, 5, 6, 7, 8, 9, 10, 11, 12, 13, 14, 15] 6 None
      (Node ''module'' 0 16 (0, 0) (6, 0)
         [Node ''comment'' 0 2 (0, 0) (0, 2) [],
          Node ''function_definition'' 3 6 (1, 0) (2, 3) [],
          Node ''class_definition'' 7 15 (4, 0) (5, 9)
            [Node ''function_definition'' 8 11 (4, 4) (4, 7) [],
             Node ''function_definition'' 12 15 (5, 4) (5, 7) []]]) []) = [1, 4, 5]
   \<and> sorted (map start_line (walk [0, 1, 2, 3, 4, 5, 6, 7, 8, 9, 10, 11, 12, 13, 14, 15] 6 None
      (Node ''module'' 0 16 (0, 0) (6, 0)
         [Node ''comment'' 0 2 (0, 0) (0, 2) [],
          Node ''function_definition'' 3 6 (1, 0) (2, 3) [],
          Node ''class_definition'' 7 15 (4, 0) (5, 9)
            [Node ''function_definition'' 8 11 (4, 4) (4, 7) [],
             Node ''function_definition'' 12 15 (5, 4) (5, 7) []]]) []))"
  using chunks_in_document_order
    [where root = "Node ''module'' 0 16 (0, 0) (6, 0)
         [Node ''comment'' 0 2 (0, 0) (0, 2) [],
          Node ''function_definition'' 3 6 (1, 0) (2, 3) [],
          Node ''class_definition'' 7 15 (4, 0) (5, 9)
            [Node ''function_definition'' 8 11 (4, 4) (4, 7) [],
             Node ''function_definition'' 12 15 (5, 4) (5, 7) []]]"
       and code = "[0, 1, 2, 3, 4, 5, 6, 7, 8, 9, 10, 11, 12, 13, 14, 15]"
       and max_chars = 6]
  by (simp add: CHUNK_NODES_def slice_def extended_start_def)

section \<open>The visits of a walk\<close>

lemma map_filter_append:
  "List.map_filter f (xs @ ys) = List.map_filter f xs @ List.map_filter f ys"
  by (simp add: List.map_filter_def)

lemma snoc_prefix_same:
  assumes "prefix (p @ [i]) q" and "prefix (p @ [j]) q"
  shows "i = j"
proof -
  have "prefix (p @ [i]) (p @ [j])"
    using assms by (rule prefix_length_prefix) simp
  then show ?thesis by simp
qed

lemma snoc_prefix_neq:
  assumes "prefix (p @ [i]) q"
  shows "q \<noteq> p"
  using assms by (auto dest: prefix_length_le)


lemma visits_Node:
  "visits code mc prev path (Node ty sb eb sp ep cs) =
     (if ty \<in> CHUNK_NODES \<and>
         int (length (slice code (extended_start prev (Node ty sb eb sp ep cs)) eb)) \<le> mc
      then [(path, Some (chunk_of code prev (Node ty sb eb sp ep cs)))]
      else (path, None) # visits_children code mc None path 0 cs)"
  by (simp add: Let_def chunk_of_def)

lemma visits_kept:
  assumes "ty \<in> CHUNK_NODES \<and>
         int (length (slice code (extended_start prev (Node ty sb eb sp ep cs)) eb)) \<le> mc"
  shows "visits code mc prev path (Node ty sb eb sp ep cs)
         = [(path, Some (chunk_of code prev (Node ty sb eb sp ep cs)))]"
  by (rule trans [OF visits_Node if_P [OF assms]])

lemma visits_split:
  assumes "\<not> (ty \<in> CHUNK_NODES \<and>
         int (length (slice code (extended_start prev (Node ty sb eb sp ep cs)) eb)) \<le> mc)"
  shows "visits code mc prev path (Node ty sb eb sp ep cs)
         = (path, None) # visits_children code mc None path 0 cs"
  by (rule trans [OF visits_Node if_not_P [OF assms]])

lemma visits_prefix:
  "x \<in> set (visits code mc prev path n) \<Longrightarrow> prefix path (fst x)"
  "x \<in> set (visits_children code mc prev path i cs) \<Longrightarrow> \<exists>j\<ge>i. prefix (path @ [j]) (fst x)"
proof (induction code mc prev path n and code mc prev path i cs arbitrary: x and x
       rule: visits_visits_children.induct)
  case (1 code mc prev path ty sb eb sp ep cs)
  show ?case
  proof (cases "ty \<in> CHUNK_NODES \<and>
                int (length (slice code (extended_start prev (Node ty sb eb sp ep cs)) eb)) \<le> mc")
    case True
    have "x = (path, Some (chunk_of code prev (Node ty sb eb sp ep cs)))"
      using "1.prems" unfolding visits_kept [OF True] by simp
    then show ?thesis by simp
  next
    case False
    have mem: "x = (path, None) \<or> x \<in> set (visits_children code mc None path 0 cs)"
      using "1.prems" unfolding visits_split [OF False] by simp
    show ?thesis
    proof (cases "x = (path, None)")
      case True
      then show ?thesis by simp
    next
      case nh: False
      then have xin: "x \<in> set (visits_children code mc None path 0 cs)"
        using mem by simp
      have "\<exists>j\<ge>0. prefix (path @ [j]) (fst x)"
      proof (cases "ty \<in> CHUNK_NODES")
        case True
        with False have big: "mc < int (length (slice code
                           (extended_start prev (Node ty sb eb sp ep cs)) eb))"
          by simp
        show ?thesis
          by (rule "1.IH"(1) [OF True refl big xin])
      next
        case False
        show ?thesis
          by (rule "1.IH"(2) [OF False xin])
      qed
      then obtain j where "prefix (path @ [j]) (fst x)"
        by (elim exE conjE)
      then show ?thesis
        by (rule append_prefixD)
    qed
  qed
next
  case (2 code mc prev path i)
  then show ?case by simp
next
  case (3 code mc prev path i c cs)
  from "3.prems" have "x \<in> set (visits code mc prev (path @ [i]) c)
      \<or> x \<in> set (visits_children code mc (Some c) path (Suc i) cs)"
    by simp
  then show ?case
  proof (elim disjE)
    assume "x \<in> set (visits code mc prev (path @ [i]) c)"
    then have "prefix (path @ [i]) (fst x)"
      by (rule "3.IH"(1))
    then show ?thesis
      by (intro exI [of _ i] conjI le_refl)
  next
    assume "x \<in> set (visits_children code mc (Some c) path (Suc i) cs)"
    then have "\<exists>j\<ge>Suc i. prefix (path @ [j]) (fst x)"
      by (rule "3.IH"(2))
    then obtain j where j: "Suc i \<le> j" "prefix (path @ [j]) (fst x)"
      by (elim exE conjE)
    from j(1) have "i \<le> j" by simp
    with j(2) show ?thesis
      by (intro exI [of _ j] conjI)
  qed
qed


lemma visits_children_IH:
  assumes "\<And>x. ty \<in> CHUNK_NODES \<Longrightarrow>
             x = slice code (extended_start prev (Node ty sb eb sp ep cs)) eb \<Longrightarrow>
             mc < int (length x) \<Longrightarrow> Q"
    and "ty \<notin> CHUNK_NODES \<Longrightarrow> Q"
    and "\<not> (ty \<in> CHUNK_NODES \<and>
         int (length (slice code (extended_start prev (Node ty sb eb sp ep cs)) eb)) \<le> mc)"
  shows Q
proof (cases "ty \<in> CHUNK_NODES")
  case True
  with assms(3) have "mc < int (length (slice code
                     (extended_start prev (Node ty sb eb sp ep cs)) eb))"
    by simp
  with True show ?thesis
    by (rule assms(1) [OF _ refl])
next
  case False
  then show ?thesis
    by (rule assms(2))
qed

lemma visits_distinct:
  "distinct (map fst (visits code mc prev path n))"
  "distinct (map fst (visits_children code mc prev path i cs))"
proof (induction code mc prev path n and code mc prev path i cs
       rule: visits_visits_children.induct)
  case (1 code mc prev path ty sb eb sp ep cs)
  show ?case
  proof (cases "ty \<in> CHUNK_NODES \<and>
                int (length (slice code (extended_start prev (Node ty sb eb sp ep cs)) eb)) \<le> mc")
    case True
    show ?thesis
      unfolding visits_kept [OF True] by simp
  next
    case False
    have d: "distinct (map fst (visits_children code mc None path 0 cs))"
      by (rule visits_children_IH [OF "1.IH"(1) "1.IH"(2) False])
    have "fst x \<noteq> path" if xin: "x \<in> set (visits_children code mc None path 0 cs)" for x
    proof -
      obtain j where "prefix (path @ [j]) (fst x)"
        using visits_prefix(2) [OF xin] by (elim exE conjE)
      then show ?thesis
        by (rule snoc_prefix_neq)
    qed
    then have "path \<notin> fst ` set (visits_children code mc None path 0 cs)"
      by blast
    then show ?thesis
      unfolding visits_split [OF False] using d by simp
  qed
next
  case (2 code mc prev path i)
  then show ?case by simp
next
  case (3 code mc prev path i c cs)
  have disj: "fst x \<noteq> fst y"
    if x: "x \<in> set (visits code mc prev (path @ [i]) c)"
    and y: "y \<in> set (visits_children code mc (Some c) path (Suc i) cs)" for x y
  proof
    assume eq: "fst x = fst y"
    have px: "prefix (path @ [i]) (fst y)"
      using visits_prefix(1) [OF x] eq by simp
    obtain j where j: "Suc i \<le> j" "prefix (path @ [j]) (fst y)"
      using visits_prefix(2) [OF y] by (elim exE conjE)
    have "i = j"
      using px j(2) by (rule snoc_prefix_same)
    with j(1) show False by simp
  qed
  have "set (map fst (visits code mc prev (path @ [i]) c))
        \<inter> set (map fst (visits_children code mc (Some c) path (Suc i) cs)) = {}"
  proof (rule ccontr)
    assume "\<not> ?thesis"
    then obtain q where "q \<in> fst ` set (visits code mc prev (path @ [i]) c)"
      and "q \<in> fst ` set (visits_children code mc (Some c) path (Suc i) cs)"
      by auto
    then obtain x y where "x \<in> set (visits code mc prev (path @ [i]) c)"
      and "y \<in> set (visits_children code mc (Some c) path (Suc i) cs)"
      and "fst x = fst y"
      by (elim imageE) simp
    then show False
      using disj by simp
  qed
  then show ?case
    using "3.IH" by simp
qed


lemma visits_absorb:
  "x \<in> set (visits code mc prev path n) \<Longrightarrow> y \<in> set (visits code mc prev path n) \<Longrightarrow>
   snd x \<noteq> None \<Longrightarrow> prefix (fst x) (fst y) \<Longrightarrow> fst y = fst x"
  "x \<in> set (visits_children code mc prev path i cs) \<Longrightarrow>
   y \<in> set (visits_children code mc prev path i cs) \<Longrightarrow>
   snd x \<noteq> None \<Longrightarrow> prefix (fst x) (fst y) \<Longrightarrow> fst y = fst x"
proof (induction code mc prev path n and code mc prev path i cs arbitrary: x y and x y
       rule: visits_visits_children.induct)
  case (1 code mc prev path ty sb eb sp ep cs)
  show ?case
  proof (cases "ty \<in> CHUNK_NODES \<and>
                int (length (slice code (extended_start prev (Node ty sb eb sp ep cs)) eb)) \<le> mc")
    case True
    have "x = (path, Some (chunk_of code prev (Node ty sb eb sp ep cs)))"
      using "1.prems"(1) unfolding visits_kept [OF True] by simp
    moreover have "y = (path, Some (chunk_of code prev (Node ty sb eb sp ep cs)))"
      using "1.prems"(2) unfolding visits_kept [OF True] by simp
    ultimately show ?thesis by simp
  next
    case False
    have xmem: "x = (path, None) \<or> x \<in> set (visits_children code mc None path 0 cs)"
      using "1.prems"(1) unfolding visits_split [OF False] by simp
    have ymem: "y = (path, None) \<or> y \<in> set (visits_children code mc None path 0 cs)"
      using "1.prems"(2) unfolding visits_split [OF False] by simp
    have "x \<noteq> (path, None)"
      using "1.prems"(3) by auto
    then have xin: "x \<in> set (visits_children code mc None path 0 cs)"
      using xmem by simp
    obtain j where j: "prefix (path @ [j]) (fst x)"
      using visits_prefix(2) [OF xin] by (elim exE conjE)
    have "y \<noteq> (path, None)"
    proof
      assume "y = (path, None)"
      then have "prefix (fst x) path"
        using "1.prems"(4) by simp
      with j have "prefix (path @ [j]) path"
        by (rule prefix_order.trans)
      then show False by simp
    qed
    then have yin: "y \<in> set (visits_children code mc None path 0 cs)"
      using ymem by simp
    have "\<And>x y. x \<in> set (visits_children code mc None path 0 cs) \<Longrightarrow>
            y \<in> set (visits_children code mc None path 0 cs) \<Longrightarrow>
            snd x \<noteq> None \<Longrightarrow> prefix (fst x) (fst y) \<Longrightarrow> fst y = fst x"
      by (rule visits_children_IH [OF _ _ False]) (rule "1.IH"(1), assumption+, rule "1.IH"(2), assumption+)
    then show ?thesis
      using xin yin "1.prems"(3,4) by blast
  qed
next
  case (2 code mc prev path i)
  then show ?case by simp
next
  case (3 code mc prev path i c cs)
  have xmem: "x \<in> set (visits code mc prev (path @ [i]) c)
      \<or> x \<in> set (visits_children code mc (Some c) path (Suc i) cs)"
    using "3.prems"(1) by simp
  have ymem: "y \<in> set (visits code mc prev (path @ [i]) c)
      \<or> y \<in> set (visits_children code mc (Some c) path (Suc i) cs)"
    using "3.prems"(2) by simp
  have cross: False
    if a: "a \<in> set (visits code mc prev (path @ [i]) c)"
    and b: "b \<in> set (visits_children code mc (Some c) path (Suc i) cs)"
    and p: "prefix (fst a) (fst b) \<or> prefix (fst b) (fst a)" for a b
  proof -
    have pa: "prefix (path @ [i]) (fst a)"
      by (rule visits_prefix(1) [OF a])
    obtain j where j: "Suc i \<le> j" "prefix (path @ [j]) (fst b)"
      using visits_prefix(2) [OF b] by (elim exE conjE)
    from p have "i = j"
    proof
      assume "prefix (fst a) (fst b)"
      with pa have "prefix (path @ [i]) (fst b)"
        by (rule prefix_order.trans)
      then show ?thesis
        using j(2) by (rule snoc_prefix_same)
    next
      assume "prefix (fst b) (fst a)"
      with j(2) have "prefix (path @ [j]) (fst a)"
        by (rule prefix_order.trans)
      with pa show ?thesis
        by (rule snoc_prefix_same)
    qed
    with j(1) show False by simp
  qed
  from xmem show ?case
  proof
    assume x1: "x \<in> set (visits code mc prev (path @ [i]) c)"
    from ymem show ?thesis
    proof
      assume "y \<in> set (visits code mc prev (path @ [i]) c)"
      with x1 show ?thesis
        using "3.prems"(3,4) by (rule "3.IH"(1))
    next
      assume "y \<in> set (visits_children code mc (Some c) path (Suc i) cs)"
      with x1 have False
        using "3.prems"(4) by (intro cross [of x y]) simp_all
      then show ?thesis ..
    qed
  next
    assume x2: "x \<in> set (visits_children code mc (Some c) path (Suc i) cs)"
    from ymem show ?thesis
    proof
      assume "y \<in> set (visits code mc prev (path @ [i]) c)"
      then have False
        using x2 "3.prems"(4) by (intro cross [of y x]) simp_all
      then show ?thesis ..
    next
      assume "y \<in> set (visits_children code mc (Some c) path (Suc i) cs)"
      with x2 show ?thesis
        using "3.prems"(3,4) by (rule "3.IH"(2))
    qed
  qed
qed


lemma walk_Node:
  "walk code mc prev (Node ty sb eb sp ep cs) chunks =
     (if ty \<in> CHUNK_NODES \<and>
         int (length (slice code (extended_start prev (Node ty sb eb sp ep cs)) eb)) \<le> mc
      then chunks @ [chunk_of code prev (Node ty sb eb sp ep cs)]
      else walk_children code mc None cs chunks)"
  by (simp add: Let_def chunk_of_def)

lemma walk_visits_sound:
  "walk code mc prev n [] = List.map_filter snd (visits code mc prev path n)"
  "walk_children code mc prev cs [] = List.map_filter snd (visits_children code mc prev path i cs)"
proof (induction code mc prev path n and code mc prev path i cs
       rule: visits_visits_children.induct)
  case (1 code mc prev path ty sb eb sp ep cs)
  show ?case
  proof (cases "ty \<in> CHUNK_NODES \<and>
                int (length (slice code (extended_start prev (Node ty sb eb sp ep cs)) eb)) \<le> mc")
    case True
    have "walk code mc prev (Node ty sb eb sp ep cs) []
          = [] @ [chunk_of code prev (Node ty sb eb sp ep cs)]"
      by (rule trans [OF walk_Node if_P [OF True]])
    then show ?thesis
      unfolding visits_kept [OF True] append_Nil by simp
  next
    case False
    have w: "walk code mc prev (Node ty sb eb sp ep cs) [] = walk_children code mc None cs []"
      by (rule trans [OF walk_Node if_not_P [OF False]])
    have "walk_children code mc None cs []
          = List.map_filter snd (visits_children code mc None path 0 cs)"
      by (rule visits_children_IH [OF "1.IH"(1) "1.IH"(2) False])
    then show ?thesis
      unfolding visits_split [OF False] w by simp
  qed
next
  case (2 code mc prev path i)
  then show ?case by simp
next
  case (3 code mc prev path i c cs)
  show ?case
    unfolding walk_children_Cons_Nil visits_children.simps map_filter_append
    using "3.IH" by simp
qed

lemma visits_positions:
  "x \<in> set (visits code mc prev path n) \<Longrightarrow>
   \<exists>r m. fst x = path @ r \<and> node_at n r = Some m
        \<and> (\<forall>c. snd x = Some c \<longrightarrow> chunk_span c = node_span m)"
  "x \<in> set (visits_children code mc prev path i cs) \<Longrightarrow>
   \<exists>k r m. k < length cs \<and> fst x = path @ (i + k) # r \<and> node_at (cs ! k) r = Some m
        \<and> (\<forall>c. snd x = Some c \<longrightarrow> chunk_span c = node_span m)"
proof (induction code mc prev path n and code mc prev path i cs arbitrary: x and x
       rule: visits_visits_children.induct)
  case (1 code mc prev path ty sb eb sp ep cs)
  let ?n = "Node ty sb eb sp ep cs"
  have self: "\<exists>r m. fst z = path @ r \<and> node_at ?n r = Some m
        \<and> (\<forall>c. snd z = Some c \<longrightarrow> chunk_span c = node_span m)"
    if z: "z = (path, None) \<or> z = (path, Some (chunk_of code prev ?n))" for z
  proof (intro exI [of _ "[]"] exI [of _ ?n] conjI allI impI)
    show "fst z = path @ []"
      using z by auto
    show "node_at ?n [] = Some ?n"
      by simp
    show "chunk_span c = node_span ?n" if "snd z = Some c" for c
    proof -
      have "c = chunk_of code prev ?n"
        using z that by auto
      then show ?thesis
        by (simp add: chunk_of_def chunk_span_def node_span_def)
    qed
  qed
  show ?case
  proof (cases "ty \<in> CHUNK_NODES \<and>
                int (length (slice code (extended_start prev ?n) eb)) \<le> mc")
    case True
    have "x = (path, Some (chunk_of code prev ?n))"
      using "1.prems" unfolding visits_kept [OF True] by simp
    then have "x = (path, None) \<or> x = (path, Some (chunk_of code prev ?n))"
      by (rule disjI2)
    then show ?thesis
      by (rule self)
  next
    case False
    have mem: "x = (path, None) \<or> x \<in> set (visits_children code mc None path 0 cs)"
      using "1.prems" unfolding visits_split [OF False] by simp
    show ?thesis
    proof (cases "x = (path, None)")
      case True
      then have "x = (path, None) \<or> x = (path, Some (chunk_of code prev ?n))"
        by (rule disjI1)
      then show ?thesis
        by (rule self)
    next
      case nh: False
      then have xin: "x \<in> set (visits_children code mc None path 0 cs)"
        using mem by simp
      have "\<And>x. x \<in> set (visits_children code mc None path 0 cs) \<Longrightarrow>
              \<exists>k r m. k < length cs \<and> fst x = path @ (0 + k) # r
                \<and> node_at (cs ! k) r = Some m
                \<and> (\<forall>c. snd x = Some c \<longrightarrow> chunk_span c = node_span m)"
        by (rule visits_children_IH [OF _ _ False])
           (rule "1.IH"(1), assumption+, rule "1.IH"(2), assumption+)
      from this [OF xin] obtain k r m where k: "k < length cs" "fst x = path @ (0 + k) # r"
        "node_at (cs ! k) r = Some m"
        "\<forall>c. snd x = Some c \<longrightarrow> chunk_span c = node_span m"
        by (elim exE conjE)
      have 1: "node_at ?n (k # r) = Some m"
        using k(1,3) by simp
      have 2: "fst x = path @ (k # r)"
        using k(2) by simp
      show ?thesis
        by (intro exI [of _ "k # r"] exI [of _ m] conjI 1 2 k(4))
    qed
  qed
next
  case (2 code mc prev path i)
  then show ?case by simp
next
  case (3 code mc prev path i c cs)
  have mem: "x \<in> set (visits code mc prev (path @ [i]) c)
      \<or> x \<in> set (visits_children code mc (Some c) path (Suc i) cs)"
    using "3.prems" by simp
  then show ?case
  proof
    assume "x \<in> set (visits code mc prev (path @ [i]) c)"
    from "3.IH"(1) [OF this] obtain r m where r: "fst x = (path @ [i]) @ r"
      "node_at c r = Some m"
      "\<forall>c. snd x = Some c \<longrightarrow> chunk_span c = node_span m"
      by (elim exE conjE)
    have 1: "0 < length (c # cs)" by simp
    have 2: "fst x = path @ (i + 0) # r" using r(1) by simp
    have 3: "node_at ((c # cs) ! 0) r = Some m" using r(2) by simp
    show ?thesis
      by (intro exI [of _ 0] exI [of _ r] exI [of _ m] conjI 1 2 3 r(3))
  next
    assume "x \<in> set (visits_children code mc (Some c) path (Suc i) cs)"
    from "3.IH"(2) [OF this] obtain k r m where k: "k < length cs"
      "fst x = path @ (Suc i + k) # r"
      "node_at (cs ! k) r = Some m"
      "\<forall>c. snd x = Some c \<longrightarrow> chunk_span c = node_span m"
      by (elim exE conjE)
    have 1: "Suc k < length (c # cs)" using k(1) by simp
    have 2: "fst x = path @ (i + Suc k) # r" using k(2) by simp
    have 3: "node_at ((c # cs) ! Suc k) r = Some m" using k(3) by simp
    show ?thesis
      by (intro exI [of _ "Suc k"] exI [of _ r] exI [of _ m] conjI 1 2 3 k(4))
  qed
qed


text \<open>
  C7: in the walk from the root, every position of the tree is visited (classified) at
  most once; once a node is kept as a chunk no position below it is visited, so the kept
  nodes lie in disjoint subtrees and no node belongs to two chunks; the chunks of the
  walk are exactly the chunks of its visits, in order, one per kept node, each carrying
  the tag and lines of the node at its position.
\<close>

theorem each_node_in_at_most_one_chunk:
  "distinct (map fst (visits code max_chars None [] root))
   \<and> (\<forall>x \<in> set (visits code max_chars None [] root).
        \<forall>y \<in> set (visits code max_chars None [] root).
          snd x \<noteq> None \<and> prefix (fst x) (fst y) \<longrightarrow> y = x)
   \<and> walk code max_chars None root [] = List.map_filter snd (visits code max_chars None [] root)
   \<and> (\<forall>x \<in> set (visits code max_chars None [] root).
        \<exists>m. node_at root (fst x) = Some m
          \<and> (\<forall>c. snd x = Some c \<longrightarrow> chunk_span c = node_span m))"
proof -
  let ?V = "visits code max_chars None [] root"
  have 1: "distinct (map fst ?V)"
    by (rule visits_distinct(1))
  have inj: "inj_on fst (set ?V)"
    using 1 by (simp add: distinct_map)
  have 2: "\<forall>x \<in> set ?V. \<forall>y \<in> set ?V. snd x \<noteq> None \<and> prefix (fst x) (fst y) \<longrightarrow> y = x"
  proof (intro ballI impI)
    fix x y
    assume x: "x \<in> set ?V" and y: "y \<in> set ?V"
      and h: "snd x \<noteq> None \<and> prefix (fst x) (fst y)"
    have "fst y = fst x"
      using x y h by (intro visits_absorb(1) [of x code max_chars None "[]" root y]) simp_all
    then show "y = x"
      using inj x y by (simp add: inj_on_def)
  qed
  have 3: "walk code max_chars None root [] = List.map_filter snd ?V"
    by (rule walk_visits_sound(1))
  have 4: "\<forall>x \<in> set ?V. \<exists>m. node_at root (fst x) = Some m
          \<and> (\<forall>c. snd x = Some c \<longrightarrow> chunk_span c = node_span m)"
  proof
    fix x
    assume "x \<in> set ?V"
    from visits_positions(1) [OF this] obtain r m where
      r: "fst x = [] @ r" "node_at root r = Some m"
         "\<forall>c. snd x = Some c \<longrightarrow> chunk_span c = node_span m"
      by (elim exE conjE)
    from r(1) have "r = fst x" by simp
    with r(2,3) show "\<exists>m. node_at root (fst x) = Some m
          \<and> (\<forall>c. snd x = Some c \<longrightarrow> chunk_span c = node_span m)"
      by (intro exI [of _ m]) simp
  qed
  show ?thesis
    by (rule conjI [OF 1 conjI [OF 2 conjI [OF 3 4]]])
qed

theorem each_node_in_at_most_one_chunk_witness:
  "map fst (visits [0, 1, 2, 3, 4, 5, 6, 7, 8, 9, 10, 11, 12, 13, 14, 15] 8 None []
      (Node ''module'' 0 16 (0, 0) (6, 0)
         [Node ''comment'' 0 2 (0, 0) (0, 2) [],
          Node ''function_definition'' 3 6 (1, 0) (2, 3) [],
          Node ''class_definition'' 7 15 (4, 0) (5, 9)
            [Node ''function_definition'' 8 11 (4, 4) (4, 7) [],
             Node ''function_definition'' 12 15 (5, 4) (5, 7) []]]))
     = [[], [0], [1], [2]]
   \<and> map chunk_span (walk [0, 1, 2, 3, 4, 5, 6, 7, 8, 9, 10, 11, 12, 13, 14, 15] 8 None
      (Node ''module'' 0 16 (0, 0) (6, 0)
         [Node ''comment'' 0 2 (0, 0) (0, 2) [],
          Node ''function_definition'' 3 6 (1, 0) (2, 3) [],
          Node ''class_definition'' 7 15 (4, 0) (5, 9)
            [Node ''function_definition'' 8 11 (4, 4) (4, 7) [],
             Node ''function_definition'' 12 15 (5, 4) (5, 7) []]]) [])
     = [(''function_definition'', 1, 2), (''class_definition'', 4, 5)]
   \<and> map fst (visits [0, 1, 2, 3, 4, 5, 6, 7, 8, 9, 10, 11, 12, 13, 14, 15] 6 None []
      (Node ''module'' 0 16 (0, 0) (6, 0)
         [Node ''comment'' 0 2 (0, 0) (0, 2) [],
          Node ''function_definition'' 3 6 (1, 0) (2, 3) [],
          Node ''class_definition'' 7 15 (4, 0) (5, 9)
            [Node ''function_definition'' 8 11 (4, 4) (4, 7) [],
             Node ''function_definition'' 12 15 (5, 4) (5, 7) []]]))
     = [[], [0], [1], [2], [2, 0], [2, 1]]
   \<and> map chunk_span (walk [0, 1, 2, 3, 4, 5, 6, 7, 8, 9, 10, 11, 12, 13, 14, 15] 6 None
      (Node ''module'' 0 16 (0, 0) (6, 0)
         [Node ''comment'' 0 2 (0, 0) (0, 2) [],
          Node ''function_definition'' 3 6 (1, 0) (2, 3) [],
          Node ''class_definition'' 7 15 (4, 0) (5, 9)
            [Node ''function_definition'' 8 11 (4, 4) (4, 7) [],
             Node ''function_definition'' 12 15 (5, 4) (5, 7) []]]) [])
     = [(''function_definition'', 1, 2), (''function_definition'', 4, 4),
        (''function_definition'', 5, 5)]"
proof -
  let ?code = "[0, 1, 2, 3, 4, 5, 6, 7, 8, 9, 10, 11, 12, 13, 14, 15] :: nat list"
  let ?root = "Node ''module'' 0 16 (0, 0) (6, 0)
         [Node ''comment'' 0 2 (0, 0) (0, 2) [],
          Node ''function_definition'' 3 6 (1, 0) (2, 3) [],
          Node ''class_definition'' 7 15 (4, 0) (5, 9)
            [Node ''function_definition'' 8 11 (4, 4) (4, 7) [],
             Node ''function_definition'' 12 15 (5, 4) (5, 7) []]]"
  have v8: "map fst (visits ?code 8 None [] ?root) = [[], [0], [1], [2]]"
    by (simp add: CHUNK_NODES_def slice_def extended_start_def)
  have v6: "map fst (visits ?code 6 None [] ?root) = [[], [0], [1], [2], [2, 0], [2, 1]]"
    by (simp add: CHUNK_NODES_def slice_def extended_start_def)
  have w8: "map chunk_span (walk ?code 8 None ?root [])
            = [(''function_definition'', 1, 2), (''class_definition'', 4, 5)]"
    unfolding each_node_in_at_most_one_chunk
      [where code = ?code and max_chars = 8 and root = ?root,
       THEN conjunct2, THEN conjunct2, THEN conjunct1]
    by (simp add: CHUNK_NODES_def slice_def extended_start_def chunk_span_def)
  have w6: "map chunk_span (walk ?code 6 None ?root [])
            = [(''function_definition'', 1, 2), (''function_definition'', 4, 4),
               (''function_definition'', 5, 5)]"
    unfolding each_node_in_at_most_one_chunk
      [where code = ?code and max_chars = 6 and root = ?root,
       THEN conjunct2, THEN conjunct2, THEN conjunct1]
    by (simp add: CHUNK_NODES_def slice_def extended_start_def chunk_span_def)
  show ?thesis
    by (rule conjI [OF v8 conjI [OF w8 conjI [OF v6 w6]]])
qed

end
